theory Spec2Isabelle
  imports Main
begin

chapter \<open>Allura: mail utilities, ticket search facets and the application base\<close>

text \<open>
  A shallow embedding of the parts of \<^verbatim>\<open>Allura/allura/lib/mail_util.py\<close>,
  \<^verbatim>\<open>ForgeTracker/forgetracker/search.py\<close> and \<^verbatim>\<open>Allura/allura/app.py\<close> that the
  properties below are about. Python exceptions are values of the type \<open>exn\<close>; a
  function that can raise returns \<open>exn + 'a\<close> (\<open>Inl\<close> the exception), a method that
  mutates its object returns the new state next to its result.
\<close>

section \<open>Definitions\<close>

subsection \<open>Exceptions\<close>

text \<open>
  The exception classes that occur. In \<^verbatim>\<open>smtplib\<close>, \<^verbatim>\<open>SMTPConnectError\<close> is a subclass
  of \<^verbatim>\<open>SMTPResponseException\<close>; here \<open>SMTPResponseException\<close> stands for the response
  exceptions that are not connect errors, so that the order of the two \<^verbatim>\<open>except\<close>
  clauses of \<^verbatim>\<open>send_raw\<close> is the order of the cases. Both carry their \<^verbatim>\<open>smtp_code\<close>.
  \<open>OtherException\<close> is any exception class not listed, by name.
\<close>

datatype exn =
    SMTPServerDisconnected
  | SMTPConnectError int
  | SMTPResponseException int
  | AddressException string
  | TypeError
  | ValueError
  | IndexError
  | KeyError
  | AttributeError
  | UnicodeEncodeError
  | UnicodeDecodeError
  | InvalidId
  | OtherException string

subsection \<open>\<^verbatim>\<open>mail_util.SMTPClient\<close>: the connection and \<^verbatim>\<open>send_raw\<close>\<close>

text \<open>
  The SMTP server is outside the program. Every interaction with it (\<^verbatim>\<open>_connect\<close>,
  which builds an \<^verbatim>\<open>smtplib.SMTP\<close> object, logs in and starts TLS; and
  \<^verbatim>\<open>self._client.sendmail\<close>) is recorded in a log, and its outcome is read from a
  script \<open>srv\<close> of the server's behaviour: \<open>outcome srv n\<close> is the exception raised by
  the \<open>n\<close>-th interaction (counted from 0 over the whole log), or \<open>None\<close> when it
  succeeds; past the end of the script every interaction succeeds. A connection handle is
  the position of its \<open>Connect\<close> event in the log. \<open>Sendmail c f rs m\<close> is a delivery attempt
  of content \<open>m\<close> from \<open>f\<close> to the recipients \<open>rs\<close> over the connection \<open>c\<close>.
\<close>

datatype smtp_event =
    Connect
  | Sendmail nat string "string list" string

record smtp_client =
  client :: "nat option"
  log :: "smtp_event list"

type_synonym smtp_server = "exn option list"

definition outcome :: "smtp_server \<Rightarrow> nat \<Rightarrow> exn option" where
  "outcome srv n = (if n < length srv then srv ! n else None)"

text \<open>
  \<^verbatim>\<open>_connect\<close>: \<^verbatim>\<open>self._client\<close> is assigned last, so it keeps its old value when the
  connection attempt raises.
\<close>

definition smtp_connect :: "smtp_server \<Rightarrow> smtp_client \<Rightarrow> exn option \<times> smtp_client" where
  "smtp_connect srv st =
     (let n = length (log st); st' = st\<lparr>log := log st @ [Connect]\<rparr>
      in case outcome srv n of
           Some e \<Rightarrow> (Some e, st')
         | None \<Rightarrow> (None, st'\<lparr>client := Some n\<rparr>))"

text \<open>\<^verbatim>\<open>self._client.sendmail(addr_from, smtp_addrs, content)\<close>; on \<^verbatim>\<open>None\<close> an \<^verbatim>\<open>AttributeError\<close>.\<close>

definition client_sendmail ::
  "smtp_server \<Rightarrow> smtp_client \<Rightarrow> string \<Rightarrow> string list \<Rightarrow> string \<Rightarrow> exn option \<times> smtp_client" where
  "client_sendmail srv st addr_from smtp_addrs content =
     (case client st of
        None \<Rightarrow> (Some AttributeError, st)
      | Some c \<Rightarrow>
          (outcome srv (length (log st)),
           st\<lparr>log := log st @ [Sendmail c addr_from smtp_addrs content]\<rparr>))"

text \<open>
  The \<^verbatim>\<open>try\<close> statement of \<^verbatim>\<open>send_raw\<close>, for the outcome of the first delivery attempt:
  \<open>Inr need_retry\<close>, or \<open>Inl e\<close> where the exception is raised again or not caught.
\<close>

fun need_retry :: "exn option \<Rightarrow> exn + bool" where
  "need_retry None = Inr False"
| "need_retry (Some SMTPServerDisconnected) = Inr True"
| "need_retry (Some (SMTPConnectError code)) = Inr True"
| "need_retry (Some (SMTPResponseException code)) =
     (if 400 \<le> code \<and> code < 500 then Inr True else Inl (SMTPResponseException code))"
| "need_retry (Some e) = Inl e"

definition send_raw ::
  "smtp_server \<Rightarrow> smtp_client \<Rightarrow> string \<Rightarrow> string list \<Rightarrow> string \<Rightarrow> exn option \<times> smtp_client" where
  "send_raw srv st addr_from smtp_addrs content =
     (case (if client st = None then smtp_connect srv st else (None, st)) of
        (Some e, st0) \<Rightarrow> (Some e, st0)
      | (None, st0) \<Rightarrow>
          (case client_sendmail srv st0 addr_from smtp_addrs content of
             (r1, st1) \<Rightarrow>
               (case need_retry r1 of
                  Inl e \<Rightarrow> (Some e, st1)
                | Inr False \<Rightarrow> (None, st1)
                | Inr True \<Rightarrow>
                    (case smtp_connect srv st1 of
                       (Some e, st2) \<Rightarrow> (Some e, st2)
                     | (None, st2) \<Rightarrow> client_sendmail srv st2 addr_from smtp_addrs content))))"

text \<open>
  The failures that the properties call transient: a disconnect, a connect error, or a
  response exception with a code from 400 to 499.
\<close>

fun transient :: "exn \<Rightarrow> bool" where
  "transient SMTPServerDisconnected = True"
| "transient (SMTPConnectError code) = True"
| "transient (SMTPResponseException code) = (400 \<le> code \<and> code \<le> 499)"
| "transient e = False"

text \<open>The delivery attempts and the connection attempts of a log.\<close>

fun is_sendmail :: "smtp_event \<Rightarrow> bool" where
  "is_sendmail (Sendmail c f rs m) = True"
| "is_sendmail Connect = False"

definition deliveries :: "smtp_event list \<Rightarrow> smtp_event list" where
  "deliveries evs = filter is_sendmail evs"

definition connections :: "smtp_event list \<Rightarrow> nat" where
  "connections evs = length (filter (\<lambda>ev. ev = Connect) evs)"

subsection \<open>Python string operations\<close>

text \<open>\<^verbatim>\<open>s.split(c)\<close> for a separator \<open>c\<close> of one character: the fields between the separators.\<close>

fun py_split :: "char \<Rightarrow> string \<Rightarrow> string list" where
  "py_split c [] = [[]]"
| "py_split c (x # xs) =
     (if x = c then [] # py_split c xs
      else (case py_split c xs of
              w # ws \<Rightarrow> (x # w) # ws
            | [] \<Rightarrow> [[x]]))"

text \<open>\<^verbatim>\<open>sep.join(ws)\<close>.\<close>

fun py_join :: "string \<Rightarrow> string list \<Rightarrow> string" where
  "py_join sep [] = []"
| "py_join sep [w] = w"
| "py_join sep (w # ws) = w @ sep @ py_join sep ws"

text \<open>\<^verbatim>\<open>s.endswith(suffix)\<close>.\<close>

definition endswith :: "string \<Rightarrow> string \<Rightarrow> bool" where
  "endswith s suffix =
     (length suffix \<le> length s \<and> drop (length s - length suffix) s = suffix)"

text \<open>
  The slice \<^verbatim>\<open>s[:-n]\<close> for \<open>n \<ge> 0\<close>. For \<open>n = 0\<close> it is \<^verbatim>\<open>s[:0]\<close>, the empty string,
  not \<open>s\<close>.
\<close>

definition slice_until_neg :: "string \<Rightarrow> nat \<Rightarrow> string" where
  "slice_until_neg s n = (if n = 0 then [] else take (length s - n) s)"

subsection \<open>\<^verbatim>\<open>mail_util.parse_address\<close>\<close>

text \<open>
  The \<^verbatim>\<open>for\<close> \<open>\<dots>\<close> \<^verbatim>\<open>else\<close> loop over
  \<^verbatim>\<open>[config.common_suffix] + aslist(config.common_suffix_alt)\<close>: the domain without the
  first suffix it ends with, or \<open>None\<close> where the \<^verbatim>\<open>else\<close> branch raises.
\<close>

fun remove_common_suffix :: "string list \<Rightarrow> string \<Rightarrow> string option" where
  "remove_common_suffix [] domain = None"
| "remove_common_suffix (suffix # suffixes) domain =
     (if endswith domain suffix then Some (slice_until_neg domain (length suffix))
      else remove_common_suffix suffixes domain)"

text \<open>
  \<^verbatim>\<open>parse_address\<close>. The configured suffixes, \<^verbatim>\<open>h.find_project\<close> (a project or \<^verbatim>\<open>None\<close>, and
  the rest of the path as its segments) and \<^verbatim>\<open>project.app_instance\<close> (an application or
  \<^verbatim>\<open>None\<close>) are parameters: they are configuration and code outside these files. An
  address with no \<^verbatim>\<open>@\<close> or more than one fails to unpack (\<^verbatim>\<open>ValueError\<close>).
\<close>

definition parse_address ::
  "string list \<Rightarrow> (string \<Rightarrow> 'p option \<times> string list) \<Rightarrow> ('p \<Rightarrow> string \<Rightarrow> 'a option) \<Rightarrow>
   string \<Rightarrow> exn + (string \<times> 'p \<times> 'a)" where
  "parse_address suffixes find_project app_instance addr =
     (case py_split CHR ''@'' addr of
        [userpart, domain] \<Rightarrow>
          (case remove_common_suffix suffixes domain of
             None \<Rightarrow> Inl (AddressException (''Unknown domain: '' @ domain))
           | Some domain' \<Rightarrow>
               (let path = py_join ''/'' (rev (py_split CHR ''.'' domain')) in
                case find_project (''/'' @ path) of
                  (None, mount_point) \<Rightarrow>
                    Inl (AddressException (''Unknown project: '' @ domain'))
                | (Some project, mount_point) \<Rightarrow>
                    if length mount_point \<noteq> 1
                    then Inl (AddressException (''Unknown tool: '' @ domain'))
                    else (case app_instance project (mount_point ! 0) of
                            None \<Rightarrow> Inl (AddressException (''Unknown tool: '' @ domain'))
                          | Some app \<Rightarrow> Inr (userpart, project, app))))
      | _ \<Rightarrow> Inl ValueError)"

text \<open>
  A small forge for the examples: project 1 at \<^verbatim>\<open>/p/test\<close>, with the application 7
  mounted at \<^verbatim>\<open>wiki\<close>.
\<close>

definition example_find_project :: "string \<Rightarrow> nat option \<times> string list" where
  "example_find_project path =
     (if path = ''/p/test/wiki'' then (Some 1, [''wiki''])
      else if path = ''/p/test/wiki/sub'' then (Some 1, [''wiki'', ''sub''])
      else if path = ''/p/test/blog'' then (Some 1, [''blog''])
      else (None, []))"

definition example_app_instance :: "nat \<Rightarrow> string \<Rightarrow> nat option" where
  "example_app_instance project mount_point = (if mount_point = ''wiki'' then Some 7 else None)"

subsection \<open>Text and bytes\<close>

text \<open>
  Where the encoding matters, a Python \<^verbatim>\<open>str\<close> is the list of its code points and a
  \<^verbatim>\<open>bytes\<close> object the list of its octets, both as natural numbers.
\<close>

type_synonym unicode = "nat list"
type_synonym bytes = "nat list"

text \<open>\<^verbatim>\<open>s.encode('ascii')\<close>: the code points themselves, when all are below 128.\<close>

definition encode_ascii :: "unicode \<Rightarrow> exn + bytes" where
  "encode_ascii s = (if list_all (\<lambda>cp. cp < 128) s then Inr s else Inl UnicodeEncodeError)"

text \<open>
  \<^verbatim>\<open>s.encode('utf-8')\<close>. The codec refuses the surrogate code points D800 to DFFF, which
  a Python \<^verbatim>\<open>str\<close> can hold.
\<close>

definition utf8_char :: "nat \<Rightarrow> bytes option" where
  "utf8_char cp =
     (if cp < 0x80 then Some [cp]
      else if cp < 0x800 then Some [0xC0 + cp div 0x40, 0x80 + cp mod 0x40]
      else if 0xD800 \<le> cp \<and> cp \<le> 0xDFFF then None
      else if cp < 0x10000 then
        Some [0xE0 + cp div 0x1000, 0x80 + cp div 0x40 mod 0x40, 0x80 + cp mod 0x40]
      else if cp < 0x110000 then
        Some [0xF0 + cp div 0x40000, 0x80 + cp div 0x1000 mod 0x40,
              0x80 + cp div 0x40 mod 0x40, 0x80 + cp mod 0x40]
      else None)"

fun encode_utf8 :: "unicode \<Rightarrow> exn + bytes" where
  "encode_utf8 [] = Inr []"
| "encode_utf8 (cp # cps) =
     (case utf8_char cp of
        None \<Rightarrow> Inl UnicodeEncodeError
      | Some bs \<Rightarrow>
          (case encode_utf8 cps of
             Inl e \<Rightarrow> Inl e
           | Inr rest \<Rightarrow> Inr (bs @ rest)))"

text \<open>
  \<^verbatim>\<open>bytes.splitlines()\<close>: the lines without their ends, where a line ends at \<^verbatim>\<open>\n\<close> (10),
  \<^verbatim>\<open>\r\<close> (13) or \<^verbatim>\<open>\r\n\<close>; no empty last line after a final line end. The first
  argument is the line read so far, in reverse.
\<close>

fun splitlines_from :: "bytes \<Rightarrow> bytes \<Rightarrow> bytes list" where
  "splitlines_from acc [] = (if acc = [] then [] else [rev acc])"
| "splitlines_from acc (b # bs) =
     (if b = 10 then rev acc # splitlines_from [] bs
      else if b = 13 then
        (case bs of
           b' # bs' \<Rightarrow>
             if b' = 10 then rev acc # splitlines_from [] bs'
             else rev acc # splitlines_from [] bs
         | [] \<Rightarrow> rev acc # splitlines_from [] bs)
      else splitlines_from (b # acc) bs)"

definition splitlines :: "bytes \<Rightarrow> bytes list" where
  "splitlines bs = splitlines_from [] bs"

subsection \<open>\<^verbatim>\<open>mail_util.encode_email_part\<close>\<close>

definition MAX_MAIL_LINE_OCTETS :: nat where
  "MAX_MAIL_LINE_OCTETS = 990"

text \<open>
  The \<^verbatim>\<open>for\<close> loop over the lines: the encoding is set to \<^verbatim>\<open>'utf-8'\<close> at the first line
  that is too long, and the loop is left.
\<close>

fun scan_lines :: "bytes list \<Rightarrow> string \<Rightarrow> string" where
  "scan_lines [] encoding = encoding"
| "scan_lines (line # lines) encoding =
     (if length line > MAX_MAIL_LINE_OCTETS then ''utf-8'' else scan_lines lines encoding)"

text \<open>
  The part that is built: the arguments given to \<^verbatim>\<open>email.mime.text.MIMEText\<close>, which are
  the payload, the subtype and the charset. (\<^verbatim>\<open>MIMEText\<close> itself, which chooses base64
  as the transfer encoding of a \<^verbatim>\<open>utf-8\<close> part, is the standard library's.)
\<close>

datatype mime_text = MIMEText bytes string string

text \<open>
  \<^verbatim>\<open>encode_email_part\<close>. The \<^verbatim>\<open>try\<close> block can only raise in \<^verbatim>\<open>content.encode('ascii')\<close>;
  the handler's \<^verbatim>\<open>content.encode('utf-8')\<close> is not guarded.
\<close>

definition encode_email_part :: "unicode \<Rightarrow> string \<Rightarrow> exn + mime_text" where
  "encode_email_part content content_type =
     (case encode_ascii content of
        Inr encoded_content \<Rightarrow>
          Inr (MIMEText encoded_content content_type
                 (scan_lines (splitlines encoded_content) ''ascii''))
      | Inl e \<Rightarrow>
          (case encode_utf8 content of
             Inl e' \<Rightarrow> Inl e'
           | Inr encoded_content \<Rightarrow> Inr (MIMEText encoded_content content_type ''utf-8'')))"

subsection \<open>\<^verbatim>\<open>bytes.decode\<close> and \<^verbatim>\<open>str.lower\<close>\<close>

text \<open>
  \<^verbatim>\<open>b.decode('utf-8')\<close>, strict: a lead octet and its continuation octets, without
  overlong forms, surrogates or code points above 10FFFF.
\<close>

definition continuation :: "nat \<Rightarrow> bool" where
  "continuation b = (0x80 \<le> b \<and> b \<le> 0xBF)"

fun prepend :: "nat \<Rightarrow> exn + unicode \<Rightarrow> exn + unicode" where
  "prepend cp (Inl e) = Inl e"
| "prepend cp (Inr cps) = Inr (cp # cps)"

fun decode_utf8 :: "bytes \<Rightarrow> exn + unicode" where
  "decode_utf8 [] = Inr []"
| "decode_utf8 (b0 # bs) =
     (if b0 < 0x80 then prepend b0 (decode_utf8 bs)
      else if 0xC2 \<le> b0 \<and> b0 \<le> 0xDF then
        (case bs of
           b1 # r \<Rightarrow>
             if continuation b1
             then prepend ((b0 - 0xC0) * 0x40 + (b1 - 0x80)) (decode_utf8 r)
             else Inl UnicodeDecodeError
         | _ \<Rightarrow> Inl UnicodeDecodeError)
      else if 0xE0 \<le> b0 \<and> b0 \<le> 0xEF then
        (case bs of
           b1 # b2 # r \<Rightarrow>
             if (if b0 = 0xE0 then 0xA0 \<le> b1 \<and> b1 \<le> 0xBF
                 else if b0 = 0xED then 0x80 \<le> b1 \<and> b1 \<le> 0x9F
                 else continuation b1) \<and> continuation b2
             then prepend ((b0 - 0xE0) * 0x1000 + (b1 - 0x80) * 0x40 + (b2 - 0x80))
                    (decode_utf8 r)
             else Inl UnicodeDecodeError
         | _ \<Rightarrow> Inl UnicodeDecodeError)
      else if 0xF0 \<le> b0 \<and> b0 \<le> 0xF4 then
        (case bs of
           b1 # b2 # b3 # r \<Rightarrow>
             if (if b0 = 0xF0 then 0x90 \<le> b1 \<and> b1 \<le> 0xBF
                 else if b0 = 0xF4 then 0x80 \<le> b1 \<and> b1 \<le> 0x8F
                 else continuation b1) \<and> continuation b2 \<and> continuation b3
             then prepend ((b0 - 0xF0) * 0x40000 + (b1 - 0x80) * 0x1000
                           + (b2 - 0x80) * 0x40 + (b3 - 0x80))
                    (decode_utf8 r)
             else Inl UnicodeDecodeError
         | _ \<Rightarrow> Inl UnicodeDecodeError)
      else Inl UnicodeDecodeError)"

text \<open>\<^verbatim>\<open>s.lower()\<close>, on the ASCII letters.\<close>

definition lower_char :: "char \<Rightarrow> char" where
  "lower_char c =
     (let n = (of_char c :: nat) in if 65 \<le> n \<and> n \<le> 90 then char_of (n + 32) else c)"

definition lower :: "string \<Rightarrow> string" where
  "lower s = map lower_char s"

subsection \<open>\<^verbatim>\<open>mail_util._parse_message_id\<close> and \<^verbatim>\<open>RE_MESSAGE_ID\<close>\<close>

text \<open>
  \<^verbatim>\<open>RE_MESSAGE_ID = re.compile(r'<(?:[^>]*/)?([^>]*)>')\<close>. A match starts at a \<^verbatim>\<open><\<close> and
  ends at the first \<^verbatim>\<open>></\<close> after it (\<^verbatim>\<open>[^>]\<close> cannot step over one); where no \<^verbatim>\<open>></\<close>
  follows, neither this \<^verbatim>\<open><\<close> nor a later one starts a match. The optional group is
  greedy: when the text between the brackets has a \<^verbatim>\<open>/\<close>, the group takes everything up
  to the last one, and group 1 is what follows it.
\<close>

definition group1 :: "string \<Rightarrow> string" where
  "group1 body =
     (if CHR ''/'' \<in> set body then rev (takeWhile (\<lambda>c. c \<noteq> CHR ''/'') (rev body))
      else body)"

text \<open>\<^verbatim>\<open>[mo.group(1) for mo in RE_MESSAGE_ID.finditer(s)]\<close>: the matches from left to right.\<close>

function RE_MESSAGE_ID_finditer :: "string \<Rightarrow> string list" where
  "RE_MESSAGE_ID_finditer s =
     (case dropWhile (\<lambda>c. c \<noteq> CHR ''<'') s of
        [] \<Rightarrow> []
      | lt # rest \<Rightarrow>
          if CHR ''>'' \<in> set rest
          then group1 (takeWhile (\<lambda>c. c \<noteq> CHR ''>'') rest)
                 # RE_MESSAGE_ID_finditer (tl (dropWhile (\<lambda>c. c \<noteq> CHR ''>'') rest))
          else [])"
  by pat_completeness auto
termination
proof (relation "measure length")
  show "wf (measure length)" by simp
next
  fix s :: string and lt rest
  assume "dropWhile (\<lambda>c. c \<noteq> CHR ''<'') s = lt # rest"
  then have "length rest < length s"
    using length_dropWhile_le [of "\<lambda>c. c \<noteq> CHR ''<''" s] by simp
  moreover have "length (tl (dropWhile (\<lambda>c. c \<noteq> CHR ''>'') rest)) \<le> length rest"
    using length_dropWhile_le [of "\<lambda>c. c \<noteq> CHR ''>''" rest] by simp
  ultimately show "(tl (dropWhile (\<lambda>c. c \<noteq> CHR ''>'') rest), s) \<in> measure length"
    by simp
qed

declare RE_MESSAGE_ID_finditer.simps [simp del]

definition parse_message_id :: "string option \<Rightarrow> string list" where
  "parse_message_id msgid =
     (case msgid of
        None \<Rightarrow> []
      | Some s \<Rightarrow> RE_MESSAGE_ID_finditer s)"

subsection \<open>\<^verbatim>\<open>mail_util.parse_message\<close>\<close>

text \<open>
  What \<^verbatim>\<open>email.parser.BytesParser().parsebytes\<close> returns, as far as \<^verbatim>\<open>parse_message\<close>
  looks at it: a message has its header fields in order, names and stored values, its
  \<^verbatim>\<open>get_content_type()\<close> and its \<^verbatim>\<open>get_filename(None)\<close>, and either a body, given by the
  octets that \<^verbatim>\<open>get_payload(decode=True)\<close> returns (the transfer encoding undone), or a list
  of parts. The parser itself is the standard library's and a parameter below. It decodes
  the octets of a field as ASCII with \<^verbatim>\<open>surrogateescape\<close>: in a stored value, a character
  from 128 on stands for an octet outside ASCII.
\<close>

datatype message =
    Leaf "(string \<times> string) list" string "string option" bytes
  | Multipart "(string \<times> string) list" string "string option" "message list"

fun msg_headers :: "message \<Rightarrow> (string \<times> string) list" where
  "msg_headers (Leaf hs ct fn body) = hs"
| "msg_headers (Multipart hs ct fn ps) = hs"

fun get_content_type :: "message \<Rightarrow> string" where
  "get_content_type (Leaf hs ct fn body) = ct"
| "get_content_type (Multipart hs ct fn ps) = ct"

fun get_filename :: "message \<Rightarrow> string option" where
  "get_filename (Leaf hs ct fn body) = fn"
| "get_filename (Multipart hs ct fn ps) = fn"

fun is_multipart :: "message \<Rightarrow> bool" where
  "is_multipart (Leaf hs ct fn body) = False"
| "is_multipart (Multipart hs ct fn ps) = True"

text \<open>\<^verbatim>\<open>get_content_maintype()\<close> is \<^verbatim>\<open>get_content_type().split('/')[0]\<close>.\<close>

definition get_content_maintype :: "message \<Rightarrow> string" where
  "get_content_maintype msg =
     (case py_split CHR ''/'' (get_content_type msg) of
        [] \<Rightarrow> []
      | w # ws \<Rightarrow> w)"

text \<open>
  The lookup of \<^verbatim>\<open>msg.get(name)\<close> and \<^verbatim>\<open>msg[name]\<close>: the stored value of the first field of
  that name, compared without case.
\<close>

fun header_get :: "(string \<times> string) list \<Rightarrow> string \<Rightarrow> string option" where
  "header_get [] name = None"
| "header_get ((k, v) # hs) name =
     (if lower k = lower name then Some v else header_get hs name)"

text \<open>
  What the message hands out for a stored value (\<^verbatim>\<open>header_fetch_parse\<close> of the policy
  \<^verbatim>\<open>compat32\<close>, which \<^verbatim>\<open>BytesParser()\<close> uses): the value itself, a \<^verbatim>\<open>str\<close>, when it is
  ASCII, and an \<^verbatim>\<open>email.header.Header\<close> made from it otherwise.
\<close>

datatype header_value = StrValue string | HeaderValue string

definition header_fetch_parse :: "string \<Rightarrow> header_value" where
  "header_fetch_parse v =
     (if list_all (\<lambda>c. of_char c < (128 :: nat)) v then StrValue v else HeaderValue v)"

text \<open>\<^verbatim>\<open>msg.get(name)\<close> and \<^verbatim>\<open>msg[name]\<close>; \<^verbatim>\<open>None\<close> when there is no such field.\<close>

definition msg_get :: "(string \<times> string) list \<Rightarrow> string \<Rightarrow> header_value option" where
  "msg_get hs name = map_option header_fetch_parse (header_get hs name)"

text \<open>
  \<^verbatim>\<open>dict(msg)\<close> reads \<^verbatim>\<open>msg.keys()\<close>, the names of all fields as they are written, and
  \<^verbatim>\<open>msg[name]\<close> for each of them. So the dictionary has every name that occurs, and
  under it what the first field of that name, compared without case, hands out: of two
  fields with the same name the first one counts.
\<close>

definition dict_msg :: "(string \<times> string) list \<Rightarrow> (string \<rightharpoonup> header_value)" where
  "dict_msg hs = (\<lambda>name. if name \<in> set (map fst hs) then msg_get hs name else None)"

text \<open>
  \<^verbatim>\<open>_parse_message_id(msg.get(name))\<close>: on an \<^verbatim>\<open>email.header.Header\<close>,
  \<^verbatim>\<open>RE_MESSAGE_ID.finditer\<close> raises \<^verbatim>\<open>TypeError\<close>.
\<close>

fun parse_message_id_of :: "header_value option \<Rightarrow> exn + string list" where
  "parse_message_id_of None = Inr (parse_message_id None)"
| "parse_message_id_of (Some (StrValue s)) = Inr (parse_message_id (Some s))"
| "parse_message_id_of (Some (HeaderValue s)) = Inl TypeError"

text \<open>\<^verbatim>\<open>msg.walk()\<close>: the message itself, then the walk of each of its parts, in order.\<close>

fun walk :: "message \<Rightarrow> message list" where
  "walk (Leaf hs ct fn body) = [Leaf hs ct fn body]"
| "walk (Multipart hs ct fn ps) = Multipart hs ct fn ps # concat (map walk ps)"

text \<open>A payload in the result: \<^verbatim>\<open>None\<close>, \<^verbatim>\<open>bytes\<close> or \<^verbatim>\<open>str\<close>.\<close>

datatype payload_value = PNone | PBytes bytes | PText unicode

text \<open>\<^verbatim>\<open>get_payload(decode=True)\<close> is \<^verbatim>\<open>None\<close> for a multipart message.\<close>

fun get_payload_decoded :: "message \<Rightarrow> payload_value" where
  "get_payload_decoded (Leaf hs ct fn body) = PBytes body"
| "get_payload_decoded (Multipart hs ct fn ps) = PNone"

text \<open>
  \<^verbatim>\<open>six.ensure_text(s)\<close>: \<^verbatim>\<open>bytes\<close> are decoded as UTF-8, strictly; a \<^verbatim>\<open>str\<close> is returned as
  it is; anything else is a \<^verbatim>\<open>TypeError\<close>.
\<close>

fun ensure_text :: "payload_value \<Rightarrow> exn + payload_value" where
  "ensure_text (PBytes b) =
     (case decode_utf8 b of
        Inl e \<Rightarrow> Inl e
      | Inr t \<Rightarrow> Inr (PText t))"
| "ensure_text (PText t) = Inr (PText t)"
| "ensure_text PNone = Inl TypeError"

text \<open>The payload as \<^verbatim>\<open>parse_message\<close> stores it, for the message and for each part alike.\<close>

definition text_payload :: "message \<Rightarrow> exn + payload_value" where
  "text_payload msg =
     (if get_content_maintype msg = ''text'' then ensure_text (get_payload_decoded msg)
      else Inr (get_payload_decoded msg))"

text \<open>The dictionary \<^verbatim>\<open>dpart\<close> of one part, and the dictionary that is returned.\<close>

record part =
  part_headers :: "string \<rightharpoonup> header_value"
  part_message_id :: string
  part_in_reply_to :: "string list"
  part_references :: "string list"
  part_content_type :: string
  part_filename :: "string option"
  part_payload :: payload_value

text \<open>
  The keys \<^verbatim>\<open>'parts'\<close> and \<^verbatim>\<open>'payload'\<close> are not always there: \<open>None\<close> is a missing key.
\<close>

record parsed_message =
  multipart :: bool
  headers :: "string \<rightharpoonup> header_value"
  message_id :: string
  in_reply_to :: "string list"
  references :: "string list"
  parts :: "part list option"
  payload :: "payload_value option"

text \<open>The loop over \<^verbatim>\<open>msg.walk()\<close>; an exception of \<^verbatim>\<open>ensure_text\<close> ends it.\<close>

fun build_parts :: "string \<Rightarrow> string list \<Rightarrow> string list \<Rightarrow> message list \<Rightarrow> exn + part list" where
  "build_parts mid irt refs [] = Inr []"
| "build_parts mid irt refs (p # ps) =
     (case text_payload p of
        Inl e \<Rightarrow> Inl e
      | Inr pl \<Rightarrow>
          (case build_parts mid irt refs ps of
             Inl e \<Rightarrow> Inl e
           | Inr ds \<Rightarrow>
               Inr (\<lparr>part_headers = dict_msg (msg_headers p),
                     part_message_id = mid,
                     part_in_reply_to = irt,
                     part_references = refs,
                     part_content_type = get_content_type p,
                     part_filename = get_filename p,
                     part_payload = pl\<rparr> # ds)))"

text \<open>
  \<^verbatim>\<open>parse_message\<close>. The parser and the identifier that \<^verbatim>\<open>h.gen_message_id()\<close> would
  return are parameters. \<^verbatim>\<open>data.encode('utf-8')\<close> comes first and can raise; then the three
  calls of \<^verbatim>\<open>_parse_message_id\<close>, in the order of the source, each of which can raise; then
  \<^verbatim>\<open>six.ensure_text\<close>.
\<close>

definition parse_message :: "(bytes \<Rightarrow> message) \<Rightarrow> string \<Rightarrow> unicode \<Rightarrow> exn + parsed_message" where
  "parse_message parsebytes gen_message_id data =
     (case encode_utf8 data of
        Inl e \<Rightarrow> Inl e
      | Inr raw \<Rightarrow>
          (let msg = parsebytes raw
           in case parse_message_id_of (msg_get (msg_headers msg) ''Message-ID'') of
                Inl e \<Rightarrow> Inl e
              | Inr ids \<Rightarrow>
                  (case parse_message_id_of (msg_get (msg_headers msg) ''In-Reply-To'') of
                     Inl e \<Rightarrow> Inl e
                   | Inr irt \<Rightarrow>
                       (case parse_message_id_of (msg_get (msg_headers msg) ''References'') of
                          Inl e \<Rightarrow> Inl e
                        | Inr refs \<Rightarrow>
                            (let mid = (case ids of [] \<Rightarrow> gen_message_id | first # others \<Rightarrow> first)
                             in if is_multipart msg then
                                  (case build_parts mid irt refs (walk msg) of
                                     Inl e \<Rightarrow> Inl e
                                   | Inr ds \<Rightarrow>
                                       Inr \<lparr>multipart = True, headers = dict_msg (msg_headers msg),
                                            message_id = mid, in_reply_to = irt, references = refs,
                                            parts = Some ds, payload = None\<rparr>)
                                else
                                  (case text_payload msg of
                                     Inl e \<Rightarrow> Inl e
                                   | Inr pl \<Rightarrow>
                                       Inr \<lparr>multipart = False, headers = dict_msg (msg_headers msg),
                                            message_id = mid, in_reply_to = irt, references = refs,
                                            parts = None, payload = Some pl\<rparr>))))))"

text \<open>
  Parsed messages for the examples. The first is what the parser returns for
  \<^verbatim>\<open>Content-Type: text/plain\<close>, \<^verbatim>\<open>Content-Transfer-Encoding: base64\<close> and the body
  \<^verbatim>\<open>6Q==\<close>: the decoded body is the single octet E9, which is Latin-1 for \<^verbatim>\<open>e\<close> acute and
  not UTF-8. The second and third are plain messages with the body \<^verbatim>\<open>hi\<close>, one with a
  \<^verbatim>\<open>Message-ID\<close> that has a path before the identifier and with two \<^verbatim>\<open>Received\<close> fields,
  one with \<^verbatim>\<open>Message-ID: <>\<close>. The fourth is a \<^verbatim>\<open>multipart/mixed\<close> message of a text
  part and an attachment. The fifth is a plain message with the body \<^verbatim>\<open>hi\<close> whose
  \<^verbatim>\<open>Message-ID\<close> holds the two octets C3 A9, the UTF-8 for \<^verbatim>\<open>e\<close> acute, between \<^verbatim>\<open><\<close> and
  \<^verbatim>\<open>@x></\<close>.
\<close>

definition example_latin1_message :: message where
  "example_latin1_message =
     Leaf [(''Content-Type'', ''text/plain''), (''Content-Transfer-Encoding'', ''base64'')]
       ''text/plain'' None [0xE9]"

definition example_plain_message :: message where
  "example_plain_message =
     Leaf [(''Received'', ''a''), (''Message-ID'', ''<forge/abc@mail.example.org>''),
           (''Received'', ''b''), (''Subject'', ''Hello'')]
       ''text/plain'' None [104, 105]"

definition example_empty_id_message :: message where
  "example_empty_id_message = Leaf [(''Message-ID'', ''<>'')] ''text/plain'' None [104, 105]"

definition example_multipart_message :: message where
  "example_multipart_message =
     Multipart [(''Content-Type'', ''multipart/mixed; boundary=XX''), (''References'', ''<a@x> <b@x>'')]
       ''multipart/mixed'' None
       [Leaf [(''Content-Type'', ''text/plain'')] ''text/plain'' None [104, 105],
        Leaf [(''Content-Type'', ''image/png'')] ''image/png'' (Some ''dot.png'') [0x89, 0x50]]"

definition example_non_ascii_id_message :: message where
  "example_non_ascii_id_message =
     Leaf [(''Message-ID'', [CHR ''<'', CHR 0xC3, CHR 0xA9, CHR ''@'', CHR ''x'', CHR ''>''])]
       ''text/plain'' None [104, 105]"

text \<open>
  For the properties of \<^verbatim>\<open>parse_message\<close>. \<open>str_header hs name\<close>: there is no field of that
  name, or the first one is ASCII, so that \<^verbatim>\<open>msg.get(name)\<close> is \<^verbatim>\<open>None\<close> or a \<^verbatim>\<open>str\<close>.
  A message or part is \<open>decodable\<close> when
  \<^verbatim>\<open>ensure_text\<close> is not called on it, or is called on a body that is UTF-8;
  \<open>stored_payload p pl\<close> says that \<open>pl\<close> is the payload kept for \<open>p\<close>: the text of the body
  for the content maintype \<^verbatim>\<open>text\<close>, and what \<^verbatim>\<open>get_payload(decode=True)\<close> returns otherwise;
  \<open>entry_of mid irt refs p d\<close> says that \<open>d\<close> is the entry of \<open>p\<close> in the list \<^verbatim>\<open>'parts'\<close>.
\<close>

definition str_header :: "(string \<times> string) list \<Rightarrow> string \<Rightarrow> bool" where
  "str_header hs name =
     (case header_get hs name of
        None \<Rightarrow> True
      | Some v \<Rightarrow> list_all (\<lambda>c. of_char c < (128 :: nat)) v)"

definition decodable :: "message \<Rightarrow> bool" where
  "decodable p =
     (if get_content_maintype p = ''text''
      then (case p of
              Leaf hs ct fn body \<Rightarrow> (case decode_utf8 body of Inr t \<Rightarrow> True | Inl e \<Rightarrow> False)
            | Multipart hs ct fn ps \<Rightarrow> False)
      else True)"

definition stored_payload :: "message \<Rightarrow> payload_value \<Rightarrow> bool" where
  "stored_payload p pl =
     (if get_content_maintype p = ''text''
      then (case p of
              Leaf hs ct fn body \<Rightarrow>
                (case pl of PText t \<Rightarrow> decode_utf8 body = Inr t | _ \<Rightarrow> False)
            | Multipart hs ct fn ps \<Rightarrow> False)
      else pl = get_payload_decoded p)"

definition entry_of :: "string \<Rightarrow> string list \<Rightarrow> string list \<Rightarrow> message \<Rightarrow> part \<Rightarrow> bool" where
  "entry_of mid irt refs p d =
     (part_headers d = dict_msg (msg_headers p) \<and>
      part_content_type d = get_content_type p \<and>
      part_filename d = get_filename p \<and>
      part_message_id d = mid \<and> part_in_reply_to d = irt \<and> part_references d = refs \<and>
      stored_payload p (part_payload d))"

subsection \<open>More Python string operations\<close>

text \<open>\<^verbatim>\<open>s.startswith(prefix)\<close>.\<close>

definition startswith :: "string \<Rightarrow> string \<Rightarrow> bool" where
  "startswith s p = (take (length p) s = p)"

text \<open>
  \<^verbatim>\<open>s.split(sep, 1)\<close> for a separator that is not empty: the text before the first
  occurrence of \<open>sep\<close> and the text after it, or \<open>None\<close> where \<open>sep\<close> does not occur.
\<close>

fun split1 :: "string \<Rightarrow> string \<Rightarrow> (string \<times> string) option" where
  "split1 sep [] = (if sep = [] then Some ([], []) else None)"
| "split1 sep (x # xs) =
     (if startswith (x # xs) sep then Some ([], drop (length sep) (x # xs))
      else (case split1 sep xs of
              None \<Rightarrow> None
            | Some (left, right) \<Rightarrow> Some (x # left, right)))"

text \<open>
  \<^verbatim>\<open>s.rsplit(sep, 1)\<close>: the same at the last occurrence, which is the first occurrence of
  the reversed separator in the reversed string.
\<close>

definition rsplit1 :: "string \<Rightarrow> string \<Rightarrow> (string \<times> string) option" where
  "rsplit1 sep s =
     (case split1 (rev sep) (rev s) of
        None \<Rightarrow> None
      | Some (right, left) \<Rightarrow> Some (rev left, rev right))"

text \<open>\<^verbatim>\<open>s.strip(c)\<close> for one character.\<close>

definition strip_char :: "char \<Rightarrow> string \<Rightarrow> string" where
  "strip_char c s = rev (dropWhile (\<lambda>x. x = c) (rev (dropWhile (\<lambda>x. x = c) s)))"

subsection \<open>\<^verbatim>\<open>mail_util.Header\<close>, \<^verbatim>\<open>AddrHeader\<close>, \<^verbatim>\<open>_parse_smtp_addr\<close>\<close>

text \<open>
  \<^verbatim>\<open>Header(text, *more_text)\<close> on strings: the arguments joined by single spaces. Called
  as \<^verbatim>\<open>Header(*args)\<close> with an empty list it is a \<^verbatim>\<open>TypeError\<close> (no \<^verbatim>\<open>text\<close>).
\<close>

definition Header :: "string \<Rightarrow> string list \<Rightarrow> string" where
  "Header text more_text = foldl (\<lambda>hdr_text m. hdr_text @ '' '' @ m) text more_text"

fun Header_star :: "string list \<Rightarrow> exn + string" where
  "Header_star [] = Inl TypeError"
| "Header_star (text # more_text) = Inr (Header text more_text)"

text \<open>\<^verbatim>\<open>AddrHeader\<close> on a string.\<close>

definition AddrHeader :: "string \<Rightarrow> string" where
  "AddrHeader fromaddr =
     (case rsplit1 '' <'' fromaddr of
        Some (name, addr) \<Rightarrow>
          (let addr' = ''<'' @ addr;
               addrheader = Header name [addr']
           in if startswith addrheader ''=?''
              then Header (strip_char CHR 0x22 name) [addr']
              else addrheader)
      | None \<Rightarrow> Header fromaddr [])"

text \<open>\<^verbatim>\<open>_parse_smtp_addr\<close>; \<^verbatim>\<open>g.noreply\<close> is a parameter.\<close>

definition parse_smtp_addr :: "string \<Rightarrow> string \<Rightarrow> string" where
  "parse_smtp_addr noreply addr =
     (case parse_message_id (Some addr) of
        first # others \<Rightarrow>
          if first \<noteq> [] then first
          else if CHR ''@'' \<in> set addr then addr
          else noreply
      | [] \<Rightarrow>
          if CHR ''@'' \<in> set addr then addr
          else noreply)"

subsection \<open>\<^verbatim>\<open>mail_util.SMTPClient.sendmail\<close>\<close>

text \<open>
  The message that \<^verbatim>\<open>sendmail\<close> is given: its header fields, in order, and its body.
  \<^verbatim>\<open>message[name] = value\<close> adds a field at the end. (The checks that the message's
  policy makes on a new field are the standard library's and are not part of this.)
\<close>

record email_message =
  msg_fields :: "(string \<times> string) list"
  msg_body :: string

definition set_header :: "email_message \<Rightarrow> string \<Rightarrow> string \<Rightarrow> email_message" where
  "set_header message name v = message\<lparr>msg_fields := msg_fields message @ [(name, v)]\<rparr>"

text \<open>An argument that may be \<^verbatim>\<open>None\<close>, a string or a list of strings, and its truth value.\<close>

datatype py_arg = NoneArg | StrArg string | ListArg "string list"

fun truthy :: "py_arg \<Rightarrow> bool" where
  "truthy NoneArg = False"
| "truthy (StrArg s) = (s \<noteq> [])"
| "truthy (ListArg xs) = (xs \<noteq> [])"

text \<open>
  What \<^verbatim>\<open>sendmail\<close> uses from outside: \<^verbatim>\<open>h.really_unicode\<close>, the date string of
  \<^verbatim>\<open>email.utils.formatdate()\<close>, \<^verbatim>\<open>paste\<close>'s \<^verbatim>\<open>aslist\<close> on a string,
  \<^verbatim>\<open>message.as_string(maxheaderlen=n)\<close>, \<^verbatim>\<open>g.noreply\<close>, the validator behind \<^verbatim>\<open>isvalid\<close> and
  \<^verbatim>\<open>config.return_path\<close>.
\<close>

record mail_env =
  really_unicode :: "string \<Rightarrow> string"
  formatdate :: string
  aslist_str :: "string \<Rightarrow> string list"
  as_string :: "email_message \<Rightarrow> int \<Rightarrow> string"
  noreply :: string
  isvalid :: "string \<Rightarrow> bool"
  return_path :: string

text \<open>\<^verbatim>\<open>aslist(references)\<close>.\<close>

fun aslist :: "mail_env \<Rightarrow> py_arg \<Rightarrow> string list" where
  "aslist env NoneArg = []"
| "aslist env (StrArg s) = aslist_str env s"
| "aslist env (ListArg xs) = xs"

text \<open>The first six header assignments, and the optional \<^verbatim>\<open>Sender\<close>.\<close>

definition basic_headers ::
  "mail_env \<Rightarrow> email_message \<Rightarrow> string \<Rightarrow> string \<Rightarrow> string \<Rightarrow> string \<Rightarrow> string option \<Rightarrow>
   string option \<Rightarrow> email_message" where
  "basic_headers env message fromaddr reply_to subject message_id_arg sender to =
     (let m1 = (case to of
                  Some t \<Rightarrow>
                    if t \<noteq> [] then set_header message ''To'' (AddrHeader (really_unicode env t))
                    else set_header message ''To'' (AddrHeader reply_to)
                | None \<Rightarrow> set_header message ''To'' (AddrHeader reply_to));
          m2 = set_header m1 ''From'' (AddrHeader fromaddr);
          m3 = set_header m2 ''Reply-To'' (AddrHeader reply_to);
          m4 = set_header m3 ''Subject'' (Header subject []);
          m5 = set_header m4 ''Message-ID'' (Header (''<'' @ message_id_arg @ ''>'') []);
          m6 = set_header m5 ''Date'' (formatdate env)
      in case sender of
           Some s \<Rightarrow> if s \<noteq> [] then set_header m6 ''Sender'' (AddrHeader s) else m6
         | None \<Rightarrow> m6)"

text \<open>
  The statements about \<^verbatim>\<open>in_reply_to\<close> and \<^verbatim>\<open>references\<close>; \<open>Inl\<close> carries the message as
  it is when the exception is raised.
\<close>

definition reply_headers ::
  "mail_env \<Rightarrow> email_message \<Rightarrow> py_arg \<Rightarrow> py_arg \<Rightarrow> (exn \<times> email_message) + email_message" where
  "reply_headers env message in_reply_to_arg references_arg =
     (case (if truthy in_reply_to_arg then
              (case in_reply_to_arg of
                 StrArg s \<Rightarrow>
                   (let m1 = set_header message ''In-Reply-To'' (Header (''<'' @ s @ ''>'') [])
                    in if \<not> truthy references_arg then
                         (case header_get (msg_fields m1) ''In-Reply-To'' of
                            Some v \<Rightarrow> Inr (set_header m1 ''References'' v)
                          | None \<Rightarrow> Inr m1)
                       else Inr m1)
               | _ \<Rightarrow> Inl (TypeError, message))
            else Inr message) of
        Inl failure \<Rightarrow> Inl failure
      | Inr m \<Rightarrow>
          if truthy references_arg then
            (case Header_star (map (\<lambda>r. ''<'' @ r @ ''>'') (aslist env references_arg)) of
               Inl e \<Rightarrow> Inl (e, m)
             | Inr v \<Rightarrow> Inr (set_header m ''References'' v))
          else Inr m)"

text \<open>The statement about \<^verbatim>\<open>cc\<close>: the message and the list \<^verbatim>\<open>addrs\<close> after it.\<close>

definition cc_header ::
  "email_message \<Rightarrow> string list \<Rightarrow> string option \<Rightarrow> email_message \<times> string list" where
  "cc_header message addrs cc =
     (case cc of
        Some c \<Rightarrow>
          if c \<noteq> [] then (set_header message ''CC'' (AddrHeader c), addrs @ [c])
          else (message, addrs)
      | None \<Rightarrow> (message, addrs))"

text \<open>
  The end of \<^verbatim>\<open>sendmail\<close>, from \<^verbatim>\<open>longest_header_len\<close> on: the content, the addresses,
  and \<^verbatim>\<open>send_raw\<close> when an address is left.
\<close>

definition deliver ::
  "mail_env \<Rightarrow> smtp_server \<Rightarrow> smtp_client \<Rightarrow> email_message \<Rightarrow> string list \<Rightarrow>
   exn option \<times> smtp_client \<times> email_message \<times> string list" where
  "deliver env srv st message addrs =
     (let longest_header_len = fold max (map (\<lambda>h. length (fst h)) (msg_fields message)) 0;
          max_header_len = int MAX_MAIL_LINE_OCTETS - (2 + int longest_header_len);
          content = as_string env message max_header_len;
          smtp_addrs = filter (isvalid env) (map (parse_smtp_addr (noreply env)) addrs)
      in if smtp_addrs = [] then (None, st, message, addrs)
         else (case send_raw srv st (return_path env) smtp_addrs content of
                 (r, st') \<Rightarrow> (r, st', message, addrs)))"

text \<open>
  \<^verbatim>\<open>sendmail\<close>. It changes the message (header fields), the list \<^verbatim>\<open>addrs\<close> (to which
  \<^verbatim>\<open>cc\<close> is appended) and the client; the result holds all three.
\<close>

definition sendmail ::
  "mail_env \<Rightarrow> smtp_server \<Rightarrow> smtp_client \<Rightarrow> string list \<Rightarrow> string \<Rightarrow> string \<Rightarrow> string \<Rightarrow> string \<Rightarrow>
   py_arg \<Rightarrow> email_message \<Rightarrow> string option \<Rightarrow> py_arg \<Rightarrow> string option \<Rightarrow> string option \<Rightarrow>
   exn option \<times> smtp_client \<times> email_message \<times> string list" where
  "sendmail env srv st addrs fromaddr reply_to subject message_id_arg in_reply_to_arg message
            sender references_arg cc to =
     (if addrs = [] then (None, st, message, addrs)
      else
        (case cc_header
                (basic_headers env message fromaddr reply_to subject message_id_arg sender to)
                addrs cc of
           (m2, addrs') \<Rightarrow>
             (case reply_headers env m2 in_reply_to_arg references_arg of
                Inl (e, m) \<Rightarrow> (Some e, st, m, addrs')
              | Inr m3 \<Rightarrow> deliver env srv st m3 addrs')))"

text \<open>An environment for the examples: an address is valid when it has an \<^verbatim>\<open>@\<close>.\<close>

definition example_env :: mail_env where
  "example_env =
     \<lparr>really_unicode = (\<lambda>s. s), formatdate = ''Thu, 01 Jan 2015 00:00:00 -0000'',
      aslist_str = (\<lambda>s. [s]), as_string = (\<lambda>m n. msg_body m),
      noreply = ''noreply'', isvalid = (\<lambda>a. CHR ''@'' \<in> set a),
      return_path = ''bounce@forge.example.org''\<rparr>"

subsection \<open>\<^verbatim>\<open>forgetracker.search.get_facets\<close>\<close>

text \<open>
  A value of the index: a string or a number. The facet fields of a search result are a
  dictionary from the name of a facet to a flat list \<^verbatim>\<open>[value, count, value, count, ...]\<close>;
  it is given as the list of its items in the order in which \<^verbatim>\<open>iteritems()\<close> yields them.
\<close>

datatype solr_value = SolrStr string | SolrInt int

type_synonym facet_fields = "(string \<times> solr_value list) list"

text \<open>\<^verbatim>\<open>xrange(0, n, 2)\<close>.\<close>

definition xrange2 :: "nat \<Rightarrow> nat list" where
  "xrange2 n = map (\<lambda>k. 2 * k) [0..<(n + 1) div 2]"

text \<open>
  \<^verbatim>\<open>[(values[i], values[i+1]) for i in xrange(0, len(values), 2)]\<close>: for the last index of
  a list of odd length, \<^verbatim>\<open>values[i+1]\<close> is an \<^verbatim>\<open>IndexError\<close>.
\<close>

fun pairs_at :: "'a list \<Rightarrow> nat list \<Rightarrow> exn + ('a \<times> 'a) list" where
  "pairs_at values [] = Inr []"
| "pairs_at values (i # is) =
     (if i + 1 < length values
      then (case pairs_at values is of
              Inl e \<Rightarrow> Inl e
            | Inr ps \<Rightarrow> Inr ((values ! i, values ! (i + 1)) # ps))
      else Inl IndexError)"

definition pair_up :: "'a list \<Rightarrow> exn + ('a \<times> 'a) list" where
  "pair_up values = pairs_at values (xrange2 (length values))"

text \<open>\<^verbatim>\<open>facet_name.rsplit('_s', 1)[0]\<close>.\<close>

definition field_name :: "string \<Rightarrow> string" where
  "field_name facet_name =
     (case rsplit1 ''_s'' facet_name of
        None \<Rightarrow> facet_name
      | Some (left, right) \<Rightarrow> left)"

text \<open>
  The list \<^verbatim>\<open>available_values\<close> for a facet: the value under the facet's name in the
  indexed data \<^verbatim>\<open>ticket.index()\<close> of each ticket that has one. \<^verbatim>\<open>index\<close> is the tracker's
  and a parameter.
\<close>

definition available_values :: "('t \<Rightarrow> string \<rightharpoonup> solr_value) \<Rightarrow> 't list \<Rightarrow> string \<Rightarrow> solr_value list" where
  "available_values index final_result facet_name =
     List.map_filter (\<lambda>ticket. index ticket facet_name) final_result"

text \<open>\<^verbatim>\<open>if final_result\<close>: neither \<^verbatim>\<open>None\<close> nor an empty list.\<close>

fun given :: "'t list option \<Rightarrow> bool" where
  "given None = False"
| "given (Some tickets) = (tickets \<noteq> [])"

text \<open>The loop over the facets, which fills \<^verbatim>\<open>result\<close>.\<close>

fun facets_loop ::
  "('t \<Rightarrow> string \<rightharpoonup> solr_value) \<Rightarrow> 't list option \<Rightarrow> facet_fields \<Rightarrow>
   (string \<rightharpoonup> (solr_value \<times> solr_value) list) \<Rightarrow>
   exn + (string \<rightharpoonup> (solr_value \<times> solr_value) list)" where
  "facets_loop index final_result [] result = Inr result"
| "facets_loop index final_result ((facet_name, values) # rest) result =
     (case pair_up values of
        Inl e \<Rightarrow> Inl e
      | Inr pairs \<Rightarrow>
          facets_loop index final_result rest
            (result(field_name facet_name \<mapsto>
               (if given final_result
                then filter (\<lambda>v. fst v \<in> set (available_values index (the final_result) facet_name))
                       pairs
                else pairs))))"

definition get_facets ::
  "('t \<Rightarrow> string \<rightharpoonup> solr_value) \<Rightarrow> facet_fields option \<Rightarrow> 't list option \<Rightarrow>
   exn + (string \<rightharpoonup> (solr_value \<times> solr_value) list)" where
  "get_facets index solr_hit final_result =
     (case solr_hit of
        None \<Rightarrow> Inr Map.empty
      | Some facet_fields \<Rightarrow> facets_loop index final_result facet_fields Map.empty)"

text \<open>
  For the properties: the pairs of consecutive elements of a flat list, defined by
  recursion on the list, and the pairs that are kept for a facet.
\<close>

fun consecutive_pairs :: "'a list \<Rightarrow> ('a \<times> 'a) list" where
  "consecutive_pairs (x # y # rest) = (x, y) # consecutive_pairs rest"
| "consecutive_pairs [x] = []"
| "consecutive_pairs [] = []"

definition kept_pairs ::
  "('t \<Rightarrow> string \<rightharpoonup> solr_value) \<Rightarrow> 't list option \<Rightarrow> string \<Rightarrow> solr_value list \<Rightarrow>
   (solr_value \<times> solr_value) list" where
  "kept_pairs index final_result facet_name values =
     (case final_result of
        None \<Rightarrow> consecutive_pairs values
      | Some tickets \<Rightarrow>
          if tickets = [] then consecutive_pairs values
          else filter (\<lambda>(v, count). list_ex (\<lambda>ticket. index ticket facet_name = Some v) tickets)
                 (consecutive_pairs values))"

text \<open>
  A search result for the examples, with two of the facets of \<^verbatim>\<open>FACET_PARAMS\<close>, and two
  tickets given by their indexed data.
\<close>

definition example_facets :: facet_fields where
  "example_facets =
     [(''status_s'', [SolrStr ''closed'', SolrInt 2, SolrStr ''open'', SolrInt 5]),
      (''_milestone_s'', [SolrStr ''1.0'', SolrInt 7])]"

definition example_tickets :: "(string \<times> solr_value) list list" where
  "example_tickets =
     [[(''status_s'', SolrStr ''open''), (''_milestone_s'', SolrStr ''1.0'')],
      [(''status_s'', SolrStr ''open'')]]"

subsection \<open>\<^verbatim>\<open>allura.app.DefaultAdminController.update\<close>\<close>

text \<open>
  An access control entry as \<^verbatim>\<open>model.ACE.allow(role_id, permission)\<close> builds it, with the
  role identifiers of an abstract type \<open>'oid\<close>.
\<close>

datatype access = ALLOW | DENY

record 'oid ace =
  access :: access
  role_id :: 'oid
  permission :: string

definition ACE_allow :: "'oid \<Rightarrow> string \<Rightarrow> 'oid ace" where
  "ACE_allow r perm = \<lparr>access = ALLOW, role_id = r, permission = perm\<rparr>"

text \<open>
  What \<^verbatim>\<open>update\<close> uses from outside: \<^verbatim>\<open>bson.ObjectId\<close> on a string (which raises
  \<^verbatim>\<open>InvalidId\<close>, here \<open>None\<close>, on a string that is no identifier), \<^verbatim>\<open>str\<close> on a role
  identifier, the name of the role that \<^verbatim>\<open>model.ProjectRole.query.get\<close> finds (\<open>None\<close>
  where it finds no role, so that \<^verbatim>\<open>.name\<close> is an \<^verbatim>\<open>AttributeError\<close>), and the mount point
  of the application.
\<close>

record 'oid admin_env =
  ObjectId :: "string \<Rightarrow> 'oid option"
  str_of_oid :: "'oid \<Rightarrow> string"
  role_name :: "'oid \<Rightarrow> string option"
  app_mount_point :: string

text \<open>
  One element of \<^verbatim>\<open>card\<close>: the permission \<^verbatim>\<open>args['id']\<close> (\<open>None\<close>: no such key, a
  \<^verbatim>\<open>KeyError\<close>), and the values under \<^verbatim>\<open>'value'\<close> (the role identifiers that are kept) and
  \<^verbatim>\<open>'new'\<close> (those that are added), each of which may be missing, one string or a list.
\<close>

record card =
  card_id :: "string option"
  card_value :: py_arg
  card_new :: py_arg

text \<open>\<^verbatim>\<open>args.get(key, [])\<close>, with a single string put into a list.\<close>

fun id_list :: "py_arg \<Rightarrow> string list" where
  "id_list NoneArg = []"
| "id_list (StrArg s) = [s]"
| "id_list (ListArg xs) = xs"

text \<open>\<^verbatim>\<open>map(ObjectId, ids)\<close>.\<close>

fun object_ids :: "'oid admin_env \<Rightarrow> string list \<Rightarrow> exn + 'oid list" where
  "object_ids env [] = Inr []"
| "object_ids env (s # ss) =
     (case ObjectId env s of
        None \<Rightarrow> Inl InvalidId
      | Some r \<Rightarrow>
          (case object_ids env ss of
             Inl e \<Rightarrow> Inl e
           | Inr rs \<Rightarrow> Inr (r # rs)))"

text \<open>\<^verbatim>\<open>map(lambda id: model.ProjectRole.query.get(_id=ObjectId(id)).name, ids)\<close>.\<close>

fun role_names :: "'oid admin_env \<Rightarrow> string list \<Rightarrow> exn + string list" where
  "role_names env [] = Inr []"
| "role_names env (s # ss) =
     (case ObjectId env s of
        None \<Rightarrow> Inl InvalidId
      | Some r \<Rightarrow>
          (case role_name env r of
             None \<Rightarrow> Inl AttributeError
           | Some name \<Rightarrow>
               (case role_names env ss of
                  Inl e \<Rightarrow> Inl e
                | Inr names \<Rightarrow> Inr (name # names))))"

text \<open>The configuration of the application: its access control list, and the audit log.\<close>

record 'oid app_config =
  acl :: "'oid ace list"
  audit_log :: "string list"

text \<open>The list \<^verbatim>\<open>del_group_ids\<close> of a card.\<close>

definition deleted_group_ids ::
  "'oid admin_env \<Rightarrow> 'oid ace list \<Rightarrow> string \<Rightarrow> string list \<Rightarrow> string list" where
  "deleted_group_ids env old_acl perm group_ids =
     map (\<lambda>a. str_of_oid env (role_id a))
       (filter (\<lambda>a. permission a = perm \<and> str_of_oid env (role_id a) \<notin> set group_ids) old_acl)"

text \<open>The message for the audit log.\<close>

definition audit_message :: "string \<Rightarrow> string list \<Rightarrow> string list \<Rightarrow> string \<Rightarrow> string" where
  "audit_message perm old_names new_names mount =
     ''updated '' @ [CHR 0x22] @ perm @ [CHR 0x22] @ '' permission: '' @ [CHR 0x22]
       @ py_join '', '' old_names @ [CHR 0x22] @ '' => '' @ [CHR 0x22]
       @ py_join '', '' new_names @ [CHR 0x22] @ '' for '' @ mount"

text \<open>
  The statement that writes to the audit log, for one card: \<open>Inl\<close> with the exception
  and the configuration as it is when the exception is raised.
\<close>

definition log_change ::
  "'oid admin_env \<Rightarrow> string \<Rightarrow> string list \<Rightarrow> string list \<Rightarrow> string list \<Rightarrow> 'oid app_config \<Rightarrow>
   (exn \<times> 'oid app_config) + 'oid app_config" where
  "log_change env perm group_ids new_group_ids del_group_ids config =
     (if new_group_ids \<noteq> [] \<or> del_group_ids \<noteq> [] then
        (case role_names env (group_ids @ del_group_ids) of
           Inl e \<Rightarrow> Inl (e, config)
         | Inr old_names \<Rightarrow>
             (case role_names env (group_ids @ new_group_ids) of
                Inl e \<Rightarrow> Inl (e, config)
              | Inr new_names \<Rightarrow>
                  Inr (config\<lparr>audit_log := audit_log config @
                         [audit_message perm old_names new_names (app_mount_point env)]\<rparr>)))
      else Inr config)"

text \<open>The body of the loop over \<^verbatim>\<open>card\<close>, for one card.\<close>

definition update_card ::
  "'oid admin_env \<Rightarrow> 'oid ace list \<Rightarrow> card \<Rightarrow> 'oid app_config \<Rightarrow>
   (exn \<times> 'oid app_config) + 'oid app_config" where
  "update_card env old_acl args config =
     (case card_id args of
        None \<Rightarrow> Inl (KeyError, config)
      | Some perm \<Rightarrow>
          (let new_group_ids = id_list (card_new args);
               group_ids = id_list (card_value args);
               del_group_ids = deleted_group_ids env old_acl perm group_ids
           in case log_change env perm group_ids new_group_ids del_group_ids config of
                Inl failure \<Rightarrow> Inl failure
              | Inr config' \<Rightarrow>
                  (case object_ids env (group_ids @ new_group_ids) of
                     Inl e \<Rightarrow> Inl (e, config')
                   | Inr role_ids \<Rightarrow>
                       Inr (config'\<lparr>acl := acl config' @ map (\<lambda>r. ACE_allow r perm) role_ids\<rparr>))))"

fun update_loop ::
  "'oid admin_env \<Rightarrow> 'oid ace list \<Rightarrow> card list \<Rightarrow> 'oid app_config \<Rightarrow>
   exn option \<times> 'oid app_config" where
  "update_loop env old_acl [] config = (None, config)"
| "update_loop env old_acl (args # cards) config =
     (case update_card env old_acl args config of
        Inl (e, config') \<Rightarrow> (Some e, config')
      | Inr config' \<Rightarrow> update_loop env old_acl cards config')"

text \<open>
  \<^verbatim>\<open>update\<close>. Without \<^verbatim>\<open>card\<close> the loop is a \<^verbatim>\<open>TypeError\<close>, after the list has been
  emptied. The result \<open>None\<close> stands for the call that gets as far as
  \<^verbatim>\<open>redirect(request.referer)\<close>, which ends it.
\<close>

definition update :: "'oid admin_env \<Rightarrow> 'oid app_config \<Rightarrow> card list option \<Rightarrow> exn option \<times> 'oid app_config" where
  "update env config card_arg =
     (let old_acl = acl config;
          config0 = config\<lparr>acl := []\<rparr>
      in case card_arg of
           None \<Rightarrow> (Some TypeError, config0)
         | Some cards \<Rightarrow> update_loop env old_acl cards config0)"

text \<open>
  For the properties: the entries that a card asks for, the kept role identifiers before
  the added ones.
\<close>

definition submitted_ids :: "card \<Rightarrow> string list" where
  "submitted_ids args = id_list (card_value args) @ id_list (card_new args)"

text \<open>
  \<open>allows env perm s a\<close>: the entry \<open>a\<close> is the \<^verbatim>\<open>ALLOW\<close> entry for the permission \<open>perm\<close> and
  the role whose identifier is written \<open>s\<close>. \<open>card_entries env args entries\<close>: the list
  \<open>entries\<close> has exactly one such entry for each identifier that the card submits, in
  their order.
\<close>

definition allows :: "'oid admin_env \<Rightarrow> string \<Rightarrow> string \<Rightarrow> 'oid ace \<Rightarrow> bool" where
  "allows env perm s a =
     (ObjectId env s = Some (role_id a) \<and> access a = ALLOW \<and> permission a = perm)"

definition card_entries :: "'oid admin_env \<Rightarrow> card \<Rightarrow> 'oid ace list \<Rightarrow> bool" where
  "card_entries env args entries =
     (case card_id args of
        None \<Rightarrow> False
      | Some perm \<Rightarrow> list_all2 (allows env perm) (submitted_ids args) entries)"

text \<open>
  \<open>known_role env s\<close>: the string \<open>s\<close> is the identifier of a role that exists.
\<close>

definition known_role :: "'oid admin_env \<Rightarrow> string \<Rightarrow> bool" where
  "known_role env s =
     (case ObjectId env s of
        None \<Rightarrow> False
      | Some r \<Rightarrow> role_name env r \<noteq> None)"

text \<open>
  An environment for the examples: role identifiers are numbers, written as strings of
  one digit; the roles 1, 2 and 3 exist.
\<close>

definition example_admin_env :: "nat admin_env" where
  "example_admin_env =
     \<lparr>ObjectId = (\<lambda>s. if s = ''1'' then Some 1 else if s = ''2'' then Some 2
                       else if s = ''3'' then Some 3 else if s = ''4'' then Some 4 else None),
      str_of_oid = (\<lambda>r. if r = 1 then ''1'' else if r = 2 then ''2''
                         else if r = 3 then ''3'' else ''4''),
      role_name = (\<lambda>r. if r = 1 then Some ''Admin'' else if r = 2 then Some ''Developer''
                        else if r = 3 then Some ''Member'' else None),
      app_mount_point = ''wiki''\<rparr>"

definition example_config :: "nat app_config" where
  "example_config =
     \<lparr>acl = [ACE_allow 1 ''read'', ACE_allow 2 ''read'', ACE_allow 1 ''write'',
             \<lparr>access = DENY, role_id = 3, permission = ''write''\<rparr>],
      audit_log = []\<rparr>"

definition example_cards :: "card list" where
  "example_cards =
     [\<lparr>card_id = Some ''read'', card_value = ListArg [''2''], card_new = StrArg ''3''\<rparr>,
      \<lparr>card_id = Some ''write'', card_value = ListArg [''1''], card_new = NoneArg\<rparr>]"

subsection \<open>\<^verbatim>\<open>allura.app.SitemapEntry.extend\<close>\<close>

text \<open>
  Sitemap entries are objects: \<^verbatim>\<open>extend\<close> appends an incoming entry itself to the list of
  children, not a copy of it, and changes the children of entries in place. So the
  entries live in a store, a function from addresses to objects, and the children of an
  entry are a list of addresses. Of the attributes of a \<^verbatim>\<open>SitemapEntry\<close>, \<^verbatim>\<open>extend\<close> reads
  \<^verbatim>\<open>label\<close> and \<^verbatim>\<open>url\<close> and reads and changes \<^verbatim>\<open>children\<close>.
\<close>

record sitemap_entry =
  label :: string
  url :: "string option"
  children :: "nat list"

type_synonym store = "nat \<Rightarrow> sitemap_entry"

text \<open>
  The argument \<^verbatim>\<open>sitemap_entries\<close> is a list object: a list of the caller's, which
  \<^verbatim>\<open>extend\<close> does not change, or, in the recursive call \<^verbatim>\<open>match.extend(e.children)\<close>, the
  list of children of the entry \<open>e\<close>, which is read from the store each time the loop
  looks at it.
\<close>

datatype entry_list = Given "nat list" | ChildrenOf nat

fun entries_of :: "store \<Rightarrow> entry_list \<Rightarrow> nat list" where
  "entries_of s (Given es) = es"
| "entries_of s (ChildrenOf e) = children (s e)"

text \<open>\<^verbatim>\<open>self.children.append(e)\<close>.\<close>

definition append_child :: "store \<Rightarrow> nat \<Rightarrow> nat \<Rightarrow> store" where
  "append_child s self e = s(self := (s self)\<lparr>children := children (s self) @ [e]\<rparr>)"

text \<open>\<^verbatim>\<open>dict((ch.label, ch) for ch in self.children)\<close>: a later child replaces an earlier one.\<close>

definition child_index :: "store \<Rightarrow> nat \<Rightarrow> (string \<rightharpoonup> nat)" where
  "child_index s self = fold (\<lambda>ch index. index(label (s ch) \<mapsto> ch)) (children (s self)) Map.empty"

text \<open>
  \<^verbatim>\<open>extend\<close>, and its \<^verbatim>\<open>for\<close> loop at position \<open>i\<close> of the list. The recursion follows the
  entries, which on a store with a cycle need not end, and the loop runs over a list
  that can grow while it runs (\<^verbatim>\<open>e.extend(e.children)\<close>): the first argument bounds the
  number of calls and iterations, and \<open>None\<close> is the result when it is used up. In
  \<^verbatim>\<open>if match and match.url == e.url\<close> an entry that was found counts as true: the class
  defines none of \<^verbatim>\<open>__bool__\<close>, \<^verbatim>\<open>__nonzero__\<close> and \<^verbatim>\<open>__len__\<close>.
\<close>

fun extend :: "nat \<Rightarrow> store \<Rightarrow> nat \<Rightarrow> entry_list \<Rightarrow> store option"
  and extend_loop ::
    "nat \<Rightarrow> store \<Rightarrow> nat \<Rightarrow> entry_list \<Rightarrow> (string \<rightharpoonup> nat) \<Rightarrow> nat \<Rightarrow> store option" where
  "extend 0 s self sitemap_entries = None"
| "extend (Suc n) s self sitemap_entries =
     extend_loop n s self sitemap_entries (child_index s self) 0"
| "extend_loop 0 s self sitemap_entries index i = None"
| "extend_loop (Suc n) s self sitemap_entries index i =
     (if i < length (entries_of s sitemap_entries) then
        (let e = entries_of s sitemap_entries ! i;
             lbl = label (s e)
         in case index lbl of
              Some match \<Rightarrow>
                if url (s match) = url (s e) then
                  (case extend n s match (ChildrenOf e) of
                     None \<Rightarrow> None
                   | Some s' \<Rightarrow> extend_loop n s' self sitemap_entries index (i + 1))
                else extend_loop n (append_child s self e) self sitemap_entries
                       (index(lbl \<mapsto> e)) (i + 1)
            | None \<Rightarrow>
                extend_loop n (append_child s self e) self sitemap_entries
                  (index(lbl \<mapsto> e)) (i + 1))
      else Some s)"

text \<open>
  For the properties. \<open>distinct_tree s c\<close>: below the entry \<open>c\<close> the store holds a tree
  (the definition is inductive, so there is no cycle below \<open>c\<close>) in which the children of
  each entry have pairwise distinct labels.
\<close>

inductive distinct_tree :: "store \<Rightarrow> nat \<Rightarrow> bool" where
  "distinct (map (\<lambda>d. label (s d)) (children (s c))) \<Longrightarrow>
   (\<And>d. d \<in> set (children (s c)) \<Longrightarrow> distinct_tree s d) \<Longrightarrow>
   distinct_tree s c"

text \<open>
  A forest of entries that share nothing is described by trees of addresses:
  \<open>realises s t\<close> says that the store holds the tree \<open>t\<close>, and the addresses of a forest
  are pairwise distinct when no entry occurs twice in it.
\<close>

datatype address_tree = Tree nat "address_tree list"

fun root :: "address_tree \<Rightarrow> nat" where
  "root (Tree a ts) = a"

fun realises :: "store \<Rightarrow> address_tree \<Rightarrow> bool" where
  "realises s (Tree a ts) = (children (s a) = map root ts \<and> (\<forall>t \<in> set ts. realises s t))"

fun addresses :: "address_tree \<Rightarrow> nat list" where
  "addresses (Tree a ts) = a # concat (map addresses ts)"

text \<open>\<open>closed s A\<close>: the children of an entry in \<open>A\<close> are in \<open>A\<close>.\<close>

definition closed :: "store \<Rightarrow> nat set \<Rightarrow> bool" where
  "closed s A = (\<forall>x \<in> A. set (children (s x)) \<subseteq> A)"

text \<open>A store for the examples: every address holds an entry without children.\<close>

definition empty_store :: store where
  "empty_store = (\<lambda>a. \<lparr>label = [], url = None, children = []\<rparr>)"

text \<open>
  \<open>covered M s d e\<close>: the child \<open>d\<close> stands for the incoming entry \<open>e\<close>. Either \<open>d\<close> is
  \<open>e\<close> itself (the entry has been appended), or \<open>d\<close> has the label and the url of \<open>e\<close> and
  every child of \<open>e\<close> is covered by a child of \<open>d\<close> (the entry has been merged into \<open>d\<close>);
  the entries that have been merged are in \<open>M\<close>.
\<close>

inductive covered :: "nat set \<Rightarrow> store \<Rightarrow> nat \<Rightarrow> nat \<Rightarrow> bool" for M :: "nat set" and s :: store where
  same: "covered M s e e"
| merged: "label (s d) = label (s e) \<Longrightarrow> url (s d) = url (s e) \<Longrightarrow> e \<in> M \<Longrightarrow>
     (\<And>x. x \<in> set (children (s e)) \<Longrightarrow> \<exists>d' \<in> set (children (s d)). covered M s d' x) \<Longrightarrow>
     covered M s d e"

text \<open>
  \<open>grows s s'\<close>: from the store \<open>s\<close> to the store \<open>s'\<close> no label and no url has changed,
  and no entry has lost a child.
\<close>

definition grows :: "store \<Rightarrow> store \<Rightarrow> bool" where
  "grows s s' =
     (\<forall>x. label (s' x) = label (s x) \<and> url (s' x) = url (s x) \<and>
          set (children (s x)) \<subseteq> set (children (s' x)))"

text \<open>
  Examples. In \<open>example_duplicates\<close> the entry at 0 has no children and the entries at 1 and
  2 have the same label and different urls; in \<open>example_duplicates_extended\<close> the entry at 0
  has these two as its children. In \<open>example_shared\<close> the entry at 0 has the children 3 and
  4, the entry at 5 is a child of 4 and is also handed to \<^verbatim>\<open>extend\<close>. \<open>example_sitemap\<close> is a
  sitemap with two tools, extended with the forest \<open>example_forest\<close>, which shares no entry
  with it.
\<close>

definition example_duplicates :: store where
  "example_duplicates = empty_store
     (0 := \<lparr>label = ''root'', url = None, children = []\<rparr>,
      1 := \<lparr>label = ''A'', url = Some ''u1'', children = []\<rparr>,
      2 := \<lparr>label = ''A'', url = Some ''u2'', children = []\<rparr>)"

definition example_duplicates_extended :: store where
  "example_duplicates_extended = example_duplicates
     (0 := \<lparr>label = ''root'', url = None, children = [1, 2]\<rparr>)"

definition example_shared :: store where
  "example_shared = empty_store
     (0 := \<lparr>label = ''root'', url = None, children = [3, 4]\<rparr>,
      3 := \<lparr>label = ''A'', url = Some ''u'', children = []\<rparr>,
      4 := \<lparr>label = ''B'', url = None, children = [5]\<rparr>,
      5 := \<lparr>label = ''A'', url = Some ''u'', children = []\<rparr>,
      6 := \<lparr>label = ''B'', url = None, children = [7]\<rparr>,
      7 := \<lparr>label = ''A'', url = Some ''u'', children = [8]\<rparr>,
      8 := \<lparr>label = ''X'', url = None, children = []\<rparr>)"

definition example_sitemap :: store where
  "example_sitemap = empty_store
     (0 := \<lparr>label = ''Project'', url = None, children = [2, 3]\<rparr>,
      2 := \<lparr>label = ''Home'', url = Some ''/home/'', children = []\<rparr>,
      3 := \<lparr>label = ''Wiki'', url = Some ''/wiki/'', children = [4]\<rparr>,
      4 := \<lparr>label = ''Pages'', url = Some ''/wiki/pages/'', children = []\<rparr>,
      10 := \<lparr>label = ''Wiki'', url = Some ''/wiki/'', children = [11]\<rparr>,
      11 := \<lparr>label = ''Edit'', url = Some ''/wiki/edit/'', children = []\<rparr>,
      12 := \<lparr>label = ''Tickets'', url = Some ''/tickets/'', children = []\<rparr>)"

definition example_forest :: "address_tree list" where
  "example_forest = [Tree 10 [Tree 11 []], Tree 12 []]"

definition example_sitemap_extended :: store where
  "example_sitemap_extended = example_sitemap
     (3 := \<lparr>label = ''Wiki'', url = Some ''/wiki/'', children = [4, 11]\<rparr>,
      0 := \<lparr>label = ''Project'', url = None, children = [2, 3, 12]\<rparr>)"

section \<open>Properties\<close>

subsection \<open>\<^verbatim>\<open>send_raw\<close>: one retry, for transient failures only\<close>

lemma need_retry_transient:
  "need_retry (Some e) = (if transient e then Inr True else Inl e)"
  by (cases e) auto

text \<open>\<^verbatim>\<open>send_raw\<close> on a client that holds a connection \<open>c\<close>, case by case.\<close>

lemma send_raw_connected:
  "client st = Some c \<Longrightarrow>
   send_raw srv st f rs m =
     (case need_retry (outcome srv (length (log st))) of
        Inl e \<Rightarrow> (Some e, st\<lparr>log := log st @ [Sendmail c f rs m]\<rparr>)
      | Inr False \<Rightarrow> (None, st\<lparr>log := log st @ [Sendmail c f rs m]\<rparr>)
      | Inr True \<Rightarrow>
          (case outcome srv (length (log st) + 1) of
             Some e \<Rightarrow> (Some e, st\<lparr>log := log st @ [Sendmail c f rs m, Connect]\<rparr>)
           | None \<Rightarrow>
               (outcome srv (length (log st) + 2),
                st\<lparr>client := Some (length (log st) + 1),
                   log := log st @ [Sendmail c f rs m, Connect,
                                    Sendmail (length (log st) + 1) f rs m]\<rparr>)))"
  by (auto simp: send_raw_def smtp_connect_def client_sendmail_def Let_def
           split: option.splits sum.splits bool.splits)

text \<open>
  C1, as stated: whenever the first delivery attempt fails with a transient error,
  \<^verbatim>\<open>send_raw\<close> reconnects and resends the same message exactly one more time. This fails
  where the reconnection itself raises: \<^verbatim>\<open>_connect\<close> is called outside any \<^verbatim>\<open>try\<close>, so
  its exception leaves \<^verbatim>\<open>send_raw\<close> before the second \<^verbatim>\<open>sendmail\<close>. Below, the client holds
  connection 0, the first attempt (interaction 1) is answered by a disconnect and the
  reconnection (interaction 2) by a connect error: the log holds one delivery attempt.
\<close>

theorem send_raw_reconnect_counterexample:
  "outcome [None, Some SMTPServerDisconnected, Some (SMTPConnectError 421)] 1
     = Some SMTPServerDisconnected
   \<and> transient SMTPServerDisconnected
   \<and> deliveries (log (snd (send_raw [None, Some SMTPServerDisconnected, Some (SMTPConnectError 421)]
        \<lparr>client = Some 0, log = [Connect]\<rparr> ''f'' [''r''] ''m'')))
     = [Sendmail 0 ''f'' [''r''] ''m'']"
  by (simp add: send_raw_connected outcome_def deliveries_def)

text \<open>
  C1, amended: on a connected client, (1) when the first delivery attempt succeeds,
  exactly one delivery is made, there is no reconnection and \<^verbatim>\<open>send_raw\<close> returns; (2) when
  it fails with a transient error (\<^verbatim>\<open>SMTPServerDisconnected\<close>, \<^verbatim>\<open>SMTPConnectError\<close>, or a
  response exception with a code from 400 to 499) and the reconnection succeeds, the same
  sender, recipients and content are sent exactly once more, over the new connection, and
  the outcome of that second attempt is the outcome of \<^verbatim>\<open>send_raw\<close>; (3) when it fails
  with a transient error and the reconnection raises, that exception is the outcome, and
  there is no second delivery attempt; (4) a client without a connection connects first
  and, when that succeeds, goes on as a connected one.
\<close>

theorem send_raw_retries_once:
  "(outcome srv (length evs) = None \<longrightarrow>
      send_raw srv \<lparr>client = Some c, log = evs\<rparr> f rs m =
        (None, \<lparr>client = Some c, log = evs @ [Sendmail c f rs m]\<rparr>))
   \<and> (\<forall>e. outcome srv (length evs) = Some e \<and> transient e \<and>
           outcome srv (length evs + 1) = None \<longrightarrow>
      send_raw srv \<lparr>client = Some c, log = evs\<rparr> f rs m =
        (outcome srv (length evs + 2),
         \<lparr>client = Some (length evs + 1),
          log = evs @ [Sendmail c f rs m, Connect, Sendmail (length evs + 1) f rs m]\<rparr>))
   \<and> (\<forall>e e'. outcome srv (length evs) = Some e \<and> transient e \<and>
           outcome srv (length evs + 1) = Some e' \<longrightarrow>
      send_raw srv \<lparr>client = Some c, log = evs\<rparr> f rs m =
        (Some e', \<lparr>client = Some c, log = evs @ [Sendmail c f rs m, Connect]\<rparr>))
   \<and> (outcome srv (length evs) = None \<longrightarrow>
      send_raw srv \<lparr>client = None, log = evs\<rparr> f rs m =
        send_raw srv \<lparr>client = Some (length evs), log = evs @ [Connect]\<rparr> f rs m)"
proof -
  have 1: "outcome srv (length evs) = None \<Longrightarrow>
      send_raw srv \<lparr>client = Some c, log = evs\<rparr> f rs m =
        (None, \<lparr>client = Some c, log = evs @ [Sendmail c f rs m]\<rparr>)"
    by (simp add: send_raw_connected)
  have 2: "outcome srv (length evs) = Some e \<Longrightarrow> transient e \<Longrightarrow>
           outcome srv (length evs + 1) = None \<Longrightarrow>
      send_raw srv \<lparr>client = Some c, log = evs\<rparr> f rs m =
        (outcome srv (length evs + 2),
         \<lparr>client = Some (length evs + 1),
          log = evs @ [Sendmail c f rs m, Connect, Sendmail (length evs + 1) f rs m]\<rparr>)" for e
    by (simp add: send_raw_connected need_retry_transient)
  have 3: "outcome srv (length evs) = Some e \<Longrightarrow> transient e \<Longrightarrow>
           outcome srv (length evs + 1) = Some e' \<Longrightarrow>
      send_raw srv \<lparr>client = Some c, log = evs\<rparr> f rs m =
        (Some e', \<lparr>client = Some c, log = evs @ [Sendmail c f rs m, Connect]\<rparr>)" for e e'
    by (simp add: send_raw_connected need_retry_transient)
  have 4: "outcome srv (length evs) = None \<Longrightarrow>
      send_raw srv \<lparr>client = None, log = evs\<rparr> f rs m =
        send_raw srv \<lparr>client = Some (length evs), log = evs @ [Connect]\<rparr> f rs m"
    by (simp add: send_raw_def smtp_connect_def)
  from 1 2 3 4 show ?thesis by blast
qed

text \<open>The four cases of C1 at concrete scripts of the server.\<close>

theorem send_raw_retries_once_witness:
  "send_raw [None, None] \<lparr>client = Some 0, log = [Connect]\<rparr> ''f'' [''r''] ''m''
     = (None, \<lparr>client = Some 0, log = [Connect, Sendmail 0 ''f'' [''r''] ''m'']\<rparr>)
   \<and> send_raw [None, Some (SMTPResponseException 451), None, Some SMTPServerDisconnected]
        \<lparr>client = Some 0, log = [Connect]\<rparr> ''f'' [''r''] ''m''
     = (Some SMTPServerDisconnected,
        \<lparr>client = Some 2,
         log = [Connect, Sendmail 0 ''f'' [''r''] ''m'', Connect, Sendmail 2 ''f'' [''r''] ''m'']\<rparr>)
   \<and> send_raw [None, Some SMTPServerDisconnected, Some (SMTPConnectError 421)]
        \<lparr>client = Some 0, log = [Connect]\<rparr> ''f'' [''r''] ''m''
     = (Some (SMTPConnectError 421),
        \<lparr>client = Some 0, log = [Connect, Sendmail 0 ''f'' [''r''] ''m'', Connect]\<rparr>)
   \<and> send_raw [None, None] \<lparr>client = None, log = []\<rparr> ''f'' [''r''] ''m''
     = send_raw [None, None] \<lparr>client = Some 0, log = [Connect]\<rparr> ''f'' [''r''] ''m''"
  using send_raw_retries_once [of "[None, None]" "[Connect]" 0 "''f''" "[''r'']" "''m''"]
        send_raw_retries_once [of "[None, Some (SMTPResponseException 451), None, Some SMTPServerDisconnected]"
           "[Connect]" 0 "''f''" "[''r'']" "''m''"]
        send_raw_retries_once [of "[None, Some SMTPServerDisconnected, Some (SMTPConnectError 421)]"
           "[Connect]" 0 "''f''" "[''r'']" "''m''"]
        send_raw_retries_once [of "[None, None]" "[]" 0 "''f''" "[''r'']" "''m''"]
  by (simp add: outcome_def)

text \<open>
  C2: when the first delivery attempt raises an exception that is not transient (a
  response exception with a code outside 400 to 499, or any other exception that is
  neither a disconnect nor a connect error), that exception is the outcome, the log gains
  the one delivery attempt and nothing else (no reconnection, no second attempt), and the
  client keeps its connection. In every run \<^verbatim>\<open>send_raw\<close> adds at most two delivery
  attempts and at most one reconnection to the log, and it adds a second attempt or a
  reconnection only when the first attempt failed with a transient error. A client
  without a connection connects first; when that raises, nothing is delivered.
\<close>

theorem send_raw_no_retry:
  "(\<forall>e. outcome srv (length evs) = Some e \<and> \<not> transient e \<longrightarrow>
      send_raw srv \<lparr>client = Some c, log = evs\<rparr> f rs m =
        (Some e, \<lparr>client = Some c, log = evs @ [Sendmail c f rs m]\<rparr>))
   \<and> (\<exists>new. log (snd (send_raw srv \<lparr>client = Some c, log = evs\<rparr> f rs m)) = evs @ new
         \<and> length (deliveries new) \<le> 2 \<and> connections new \<le> 1
         \<and> ((length (deliveries new) = 2 \<or> connections new = 1) \<longrightarrow>
              (\<exists>e. outcome srv (length evs) = Some e \<and> transient e)))
   \<and> (outcome srv (length evs) = None \<longrightarrow>
      send_raw srv \<lparr>client = None, log = evs\<rparr> f rs m =
        send_raw srv \<lparr>client = Some (length evs), log = evs @ [Connect]\<rparr> f rs m)
   \<and> (\<forall>e. outcome srv (length evs) = Some e \<longrightarrow>
      send_raw srv \<lparr>client = None, log = evs\<rparr> f rs m =
        (Some e, \<lparr>client = None, log = evs @ [Connect]\<rparr>))"
proof -
  let ?st = "\<lparr>client = Some c, log = evs\<rparr>"
  have 1: "outcome srv (length evs) = Some e \<Longrightarrow> \<not> transient e \<Longrightarrow>
      send_raw srv ?st f rs m = (Some e, \<lparr>client = Some c, log = evs @ [Sendmail c f rs m]\<rparr>)" for e
    by (simp add: send_raw_connected need_retry_transient)
  have 2: "\<exists>new. log (snd (send_raw srv ?st f rs m)) = evs @ new
         \<and> length (deliveries new) \<le> 2 \<and> connections new \<le> 1
         \<and> ((length (deliveries new) = 2 \<or> connections new = 1) \<longrightarrow>
              (\<exists>e. outcome srv (length evs) = Some e \<and> transient e))"
  proof (cases "outcome srv (length evs)")
    case None
    then show ?thesis
      by (simp add: send_raw_connected deliveries_def connections_def)
  next
    case (Some e)
    show ?thesis
    proof (cases "transient e")
      case True
      with Some show ?thesis
        by (cases "outcome srv (Suc (length evs))")
           (simp_all add: send_raw_connected need_retry_transient deliveries_def connections_def)
    next
      case False
      with Some show ?thesis
        by (simp add: send_raw_connected need_retry_transient deliveries_def connections_def)
    qed
  qed
  have 3: "outcome srv (length evs) = None \<Longrightarrow>
      send_raw srv \<lparr>client = None, log = evs\<rparr> f rs m =
        send_raw srv \<lparr>client = Some (length evs), log = evs @ [Connect]\<rparr> f rs m"
    by (simp add: send_raw_def smtp_connect_def)
  have 4: "outcome srv (length evs) = Some e \<Longrightarrow>
      send_raw srv \<lparr>client = None, log = evs\<rparr> f rs m =
        (Some e, \<lparr>client = None, log = evs @ [Connect]\<rparr>)" for e
    by (simp add: send_raw_def smtp_connect_def)
  from 1 2 3 4 show ?thesis by blast
qed

text \<open>C2 at a permanent response code, at another exception class, and at a failed first connection.\<close>

theorem send_raw_no_retry_witness:
  "send_raw [None, Some (SMTPResponseException 550), None, None]
        \<lparr>client = Some 0, log = [Connect]\<rparr> ''f'' [''r''] ''m''
     = (Some (SMTPResponseException 550),
        \<lparr>client = Some 0, log = [Connect, Sendmail 0 ''f'' [''r''] ''m'']\<rparr>)
   \<and> send_raw [None, Some (OtherException ''SMTPRecipientsRefused'')]
        \<lparr>client = Some 0, log = [Connect]\<rparr> ''f'' [''r''] ''m''
     = (Some (OtherException ''SMTPRecipientsRefused''),
        \<lparr>client = Some 0, log = [Connect, Sendmail 0 ''f'' [''r''] ''m'']\<rparr>)
   \<and> send_raw [Some (SMTPConnectError 554)] \<lparr>client = None, log = []\<rparr> ''f'' [''r''] ''m''
     = (Some (SMTPConnectError 554), \<lparr>client = None, log = [Connect]\<rparr>)"
  using send_raw_no_retry [of "[None, Some (SMTPResponseException 550), None, None]"
           "[Connect]" 0 "''f''" "[''r'']" "''m''"]
        send_raw_no_retry [of "[None, Some (OtherException ''SMTPRecipientsRefused'')]"
           "[Connect]" 0 "''f''" "[''r'']" "''m''"]
        send_raw_no_retry [of "[Some (SMTPConnectError 554)]" "[]" 0 "''f''" "[''r'']" "''m''"]
  by (simp add: outcome_def)

subsection \<open>\<^verbatim>\<open>parse_address\<close>: the three errors and the result\<close>

lemma py_split_no_sep: "c \<notin> set s \<Longrightarrow> py_split c s = [s]"
  by (induction s) auto

lemma py_split_first: "c \<notin> set u \<Longrightarrow> py_split c (u @ c # d) = u # py_split c d"
  by (induction u) auto

lemma py_split_one_sep:
  "c \<notin> set u \<Longrightarrow> c \<notin> set d \<Longrightarrow> py_split c (u @ c # d) = [u, d]"
  by (simp add: py_split_first py_split_no_sep)

lemma remove_common_suffix_None:
  "(\<forall>s \<in> set suffixes. \<not> endswith domain s) \<Longrightarrow> remove_common_suffix suffixes domain = None"
  by (induction suffixes) auto

lemma endswith_append: "endswith (name @ s) s"
  by (simp add: endswith_def)

lemma remove_common_suffix_first:
  "(\<forall>t \<in> set pre. \<not> endswith (name @ s) t) \<Longrightarrow>
   remove_common_suffix (pre @ s # post) (name @ s) = Some (if s = [] then [] else name)"
  by (induction pre) (auto simp: endswith_append slice_until_neg_def)

text \<open>
  C3: for an address \<^verbatim>\<open>userpart@domain\<close> (one \<^verbatim>\<open>@\<close>), \<^verbatim>\<open>parse_address\<close>
  \<^item> raises \<^verbatim>\<open>AddressException('Unknown domain: ' + domain)\<close> when the domain ends with none
    of the configured suffixes;
  \<^item> otherwise takes the first configured suffix \<open>s\<close> that the domain ends with, and the
    rest of the domain before it (the slice \<^verbatim>\<open>domain[:-len(s)]\<close>, which is empty for an
    empty suffix), looks up the path \<^verbatim>\<open>/\<close> + the rest's dot-separated labels in reverse
    order joined by \<^verbatim>\<open>/\<close>, and
  \<^item> raises \<^verbatim>\<open>'Unknown project: ' + rest\<close> when the path resolves to no project,
  \<^item> raises \<^verbatim>\<open>'Unknown tool: ' + rest\<close> when the mount point is not exactly one segment,
    or is one segment that names no application of the project,
  \<^item> and otherwise returns \<^verbatim>\<open>(userpart, project, app)\<close>.
\<close>

theorem parse_address_cases:
  assumes "CHR ''@'' \<notin> set userpart" and "CHR ''@'' \<notin> set domain"
  shows
  "((\<forall>s \<in> set suffixes. \<not> endswith domain s) \<longrightarrow>
      parse_address suffixes find_project app_instance (userpart @ ''@'' @ domain)
        = Inl (AddressException (''Unknown domain: '' @ domain)))
   \<and> (suffixes = pre @ s # post \<and> (\<forall>t \<in> set pre. \<not> endswith domain t) \<and>
      domain = name @ s \<and> rest = (if s = [] then [] else name) \<and>
      path = ''/'' @ py_join ''/'' (rev (py_split CHR ''.'' rest)) \<longrightarrow>
        (fst (find_project path) = None \<longrightarrow>
           parse_address suffixes find_project app_instance (userpart @ ''@'' @ domain)
             = Inl (AddressException (''Unknown project: '' @ rest)))
      \<and> (\<forall>project mount_point.
           find_project path = (Some project, mount_point) \<and> length mount_point \<noteq> 1 \<longrightarrow>
           parse_address suffixes find_project app_instance (userpart @ ''@'' @ domain)
             = Inl (AddressException (''Unknown tool: '' @ rest)))
      \<and> (\<forall>project mp.
           find_project path = (Some project, [mp]) \<and> app_instance project mp = None \<longrightarrow>
           parse_address suffixes find_project app_instance (userpart @ ''@'' @ domain)
             = Inl (AddressException (''Unknown tool: '' @ rest)))
      \<and> (\<forall>project mp app.
           find_project path = (Some project, [mp]) \<and> app_instance project mp = Some app \<longrightarrow>
           parse_address suffixes find_project app_instance (userpart @ ''@'' @ domain)
             = Inr (userpart, project, app)))"
proof -
  have sp: "py_split CHR ''@'' (userpart @ ''@'' @ domain) = [userpart, domain]"
    using assms by (simp add: py_split_one_sep)
  have unknown_domain: "parse_address suffixes find_project app_instance (userpart @ ''@'' @ domain)
        = Inl (AddressException (''Unknown domain: '' @ domain))"
    if "\<forall>s \<in> set suffixes. \<not> endswith domain s"
    using that sp by (simp add: parse_address_def remove_common_suffix_None)
  have known: "parse_address suffixes find_project app_instance (userpart @ ''@'' @ domain) =
         (case find_project path of
            (None, mount_point) \<Rightarrow> Inl (AddressException (''Unknown project: '' @ rest))
          | (Some project, mount_point) \<Rightarrow>
              if length mount_point \<noteq> 1
              then Inl (AddressException (''Unknown tool: '' @ rest))
              else (case app_instance project (mount_point ! 0) of
                      None \<Rightarrow> Inl (AddressException (''Unknown tool: '' @ rest))
                    | Some app \<Rightarrow> Inr (userpart, project, app)))"
    if "suffixes = pre @ s # post" "\<forall>t \<in> set pre. \<not> endswith domain t"
       "domain = name @ s" "rest = (if s = [] then [] else name)"
       "path = ''/'' @ py_join ''/'' (rev (py_split CHR ''.'' rest))"
  proof -
    have "remove_common_suffix suffixes domain = Some rest"
      using that remove_common_suffix_first [of pre name s post] by simp
    with sp that(5) show ?thesis
      by (simp add: parse_address_def Let_def)
  qed
  show ?thesis
  proof (intro conjI allI impI, goal_cases)
    case 1
    then show ?case by (rule unknown_domain)
  next
    case 2
    then show ?case using known by (cases "find_project path") auto
  next
    case (3 project mount_point)
    then show ?case using known by auto
  next
    case (4 project mp)
    then show ?case using known by auto
  next
    case (5 project mp app)
    then show ?case using known by auto
  qed
qed

text \<open>C3 at the example forge: each of the errors, and a successful lookup.\<close>

theorem parse_address_cases_witness:
  "parse_address [''.in.sf.net'', ''.lists.example.org''] example_find_project example_app_instance
       ''u@host.example.com''
     = Inl (AddressException ''Unknown domain: host.example.com'')
   \<and> parse_address [''.in.sf.net'', ''.lists.example.org''] example_find_project example_app_instance
       ''u@wiki.other.p.in.sf.net''
     = Inl (AddressException ''Unknown project: wiki.other.p'')
   \<and> parse_address [''.in.sf.net'', ''.lists.example.org''] example_find_project example_app_instance
       ''u@sub.wiki.test.p.in.sf.net''
     = Inl (AddressException ''Unknown tool: sub.wiki.test.p'')
   \<and> parse_address [''.in.sf.net'', ''.lists.example.org''] example_find_project example_app_instance
       ''u@blog.test.p.in.sf.net''
     = Inl (AddressException ''Unknown tool: blog.test.p'')
   \<and> parse_address [''.in.sf.net'', ''.lists.example.org''] example_find_project example_app_instance
       ''u@wiki.test.p.lists.example.org''
     = Inr (''u'', 1, 7)"
proof -
  let ?sx = "[''.in.sf.net'', ''.lists.example.org'']"
  let ?fp = example_find_project
  let ?ai = example_app_instance
  have u: "CHR ''@'' \<notin> set ''u''" by simp
  have d1: "CHR ''@'' \<notin> set ''host.example.com''" by simp
  have d2: "CHR ''@'' \<notin> set ''wiki.other.p.in.sf.net''" by simp
  have d3: "CHR ''@'' \<notin> set ''sub.wiki.test.p.in.sf.net''" by simp
  have d4: "CHR ''@'' \<notin> set ''blog.test.p.in.sf.net''" by simp
  have d5: "CHR ''@'' \<notin> set ''wiki.test.p.lists.example.org''" by simp
  have 1: "parse_address ?sx ?fp ?ai ''u@host.example.com''
     = Inl (AddressException ''Unknown domain: host.example.com'')"
    using parse_address_cases [OF u d1, of ?sx ?fp ?ai]
    by (simp add: endswith_def)
  have 2: "parse_address ?sx ?fp ?ai ''u@wiki.other.p.in.sf.net''
     = Inl (AddressException ''Unknown project: wiki.other.p'')"
    using parse_address_cases [OF u d2, of ?sx ?fp ?ai "[]" "''.in.sf.net''"
       "[''.lists.example.org'']" "''wiki.other.p''" "''wiki.other.p''" "''/p/other/wiki''"]
    by (simp add: example_find_project_def)
  have 3: "parse_address ?sx ?fp ?ai ''u@sub.wiki.test.p.in.sf.net''
     = Inl (AddressException ''Unknown tool: sub.wiki.test.p'')"
    using parse_address_cases [OF u d3, of ?sx ?fp ?ai "[]" "''.in.sf.net''"
       "[''.lists.example.org'']" "''sub.wiki.test.p''" "''sub.wiki.test.p''" "''/p/test/wiki/sub''"]
    by (simp add: example_find_project_def)
  have 4: "parse_address ?sx ?fp ?ai ''u@blog.test.p.in.sf.net''
     = Inl (AddressException ''Unknown tool: blog.test.p'')"
    using parse_address_cases [OF u d4, of ?sx ?fp ?ai "[]" "''.in.sf.net''"
       "[''.lists.example.org'']" "''blog.test.p''" "''blog.test.p''" "''/p/test/blog''"]
    by (simp add: example_find_project_def example_app_instance_def)
  have 5: "parse_address ?sx ?fp ?ai ''u@wiki.test.p.lists.example.org'' = Inr (''u'', 1, 7)"
    using parse_address_cases [OF u d5, of ?sx ?fp ?ai "[''.in.sf.net'']" "''.lists.example.org''"
       "[]" "''wiki.test.p''" "''wiki.test.p''" "''/p/test/wiki''"]
    by (simp add: endswith_def example_find_project_def example_app_instance_def)
  from 1 2 3 4 5 show ?thesis by simp
qed

subsection \<open>\<^verbatim>\<open>encode_email_part\<close>: the choice of the charset\<close>

lemma scan_lines_ascii:
  "scan_lines lines ''ascii'' =
     (if \<forall>line \<in> set lines. length line \<le> MAX_MAIL_LINE_OCTETS then ''ascii'' else ''utf-8'')"
  by (induction lines) auto

lemma utf8_char_ascii: "cp < 128 \<Longrightarrow> utf8_char cp = Some [cp]"
  by (simp add: utf8_char_def)

lemma encode_utf8_ascii: "\<forall>cp \<in> set s. cp < 128 \<Longrightarrow> encode_utf8 s = Inr s"
  by (induction s) (auto simp: utf8_char_ascii)

lemma splitlines_from_one_line:
  "10 \<notin> set bs \<Longrightarrow> 13 \<notin> set bs \<Longrightarrow> acc @ bs \<noteq> [] \<Longrightarrow>
   splitlines_from acc bs = [rev acc @ bs]"
  by (induction bs arbitrary: acc) auto

lemma splitlines_one_line:
  "10 \<notin> set bs \<Longrightarrow> 13 \<notin> set bs \<Longrightarrow> bs \<noteq> [] \<Longrightarrow> splitlines bs = [bs]"
  by (simp add: splitlines_def splitlines_from_one_line)

text \<open>
  C5, as stated: for every content string that does not qualify for \<^verbatim>\<open>ascii\<close>, the content
  is encoded as UTF-8 and the part is built with the \<^verbatim>\<open>utf-8\<close> charset. A Python string
  can hold a lone surrogate, for which \<^verbatim>\<open>content.encode('ascii')\<close> raises and then, in the
  handler, \<^verbatim>\<open>content.encode('utf-8')\<close> raises too: no part is built for \<^verbatim>\<open>'\ud800'\<close>.
\<close>

theorem encode_email_part_surrogate_counterexample:
  "encode_email_part [0xD800] ''plain'' = Inl UnicodeEncodeError"
  by (simp add: encode_email_part_def encode_ascii_def utf8_char_def)

text \<open>
  C5, amended: \<^verbatim>\<open>encode_email_part\<close> builds the part with the \<^verbatim>\<open>ascii\<close> charset, from the
  content's ASCII encoding, exactly when every code point of the content is below 128 and
  every line of it (as \<^verbatim>\<open>bytes.splitlines\<close> splits it) is at most
  \<^verbatim>\<open>MAX_MAIL_LINE_OCTETS\<close> = 990 octets long. In every other case in which the content has
  a UTF-8 encoding, the part is built from that encoding with the \<^verbatim>\<open>utf-8\<close> charset (for
  ASCII content with a long line, the ASCII encoding that is passed on is the UTF-8
  encoding). Where the content has no UTF-8 encoding, the codec's exception is raised.
\<close>

theorem encode_email_part_charset:
  "((\<forall>cp \<in> set content. cp < 128) \<and>
    (\<forall>line \<in> set (splitlines content). length line \<le> MAX_MAIL_LINE_OCTETS) \<longrightarrow>
      encode_email_part content content_type = Inr (MIMEText content content_type ''ascii''))
   \<and> (\<forall>encoded.
        \<not> ((\<forall>cp \<in> set content. cp < 128) \<and>
           (\<forall>line \<in> set (splitlines content). length line \<le> MAX_MAIL_LINE_OCTETS)) \<and>
        encode_utf8 content = Inr encoded \<longrightarrow>
      encode_email_part content content_type = Inr (MIMEText encoded content_type ''utf-8''))
   \<and> (\<forall>e. encode_utf8 content = Inl e \<longrightarrow> encode_email_part content content_type = Inl e)
   \<and> MAX_MAIL_LINE_OCTETS = 990"
proof -
  let ?ascii = "\<forall>cp \<in> set content. cp < 128"
  let ?short = "\<forall>line \<in> set (splitlines content). length line \<le> MAX_MAIL_LINE_OCTETS"
  have a: "encode_email_part content content_type = Inr (MIMEText content content_type ''ascii'')"
    if "?ascii" "?short"
    using that by (simp add: encode_email_part_def encode_ascii_def list_all_iff scan_lines_ascii)
  have b: "encode_email_part content content_type = Inr (MIMEText encoded content_type ''utf-8'')"
    if "\<not> (?ascii \<and> ?short)" "encode_utf8 content = Inr encoded" for encoded
  proof (cases ?ascii)
    case True
    with that have "encoded = content" "\<not> ?short"
      by (auto simp: encode_utf8_ascii)
    with True show ?thesis
      by (simp add: encode_email_part_def encode_ascii_def list_all_iff scan_lines_ascii)
  next
    case False
    with that show ?thesis
      by (auto simp: encode_email_part_def encode_ascii_def list_all_iff)
  qed
  have c: "encode_email_part content content_type = Inl e" if "encode_utf8 content = Inl e" for e
  proof -
    have "\<not> ?ascii"
    proof
      assume ?ascii
      then have "encode_utf8 content = Inr content" by (rule encode_utf8_ascii)
      with that show False by simp
    qed
    with that show ?thesis
      by (auto simp: encode_email_part_def encode_ascii_def list_all_iff)
  qed
  from a b c show ?thesis by (simp add: MAX_MAIL_LINE_OCTETS_def)
qed

text \<open>
  C5 at a short ASCII text, a text with \<^verbatim>\<open>e\<close> acute, an ASCII line of 991 octets, and a
  text with a lone surrogate.
\<close>

theorem encode_email_part_charset_witness:
  "encode_email_part [104, 105, 10] ''plain'' = Inr (MIMEText [104, 105, 10] ''plain'' ''ascii'')
   \<and> encode_email_part [104, 0xE9] ''plain'' = Inr (MIMEText [104, 0xC3, 0xA9] ''plain'' ''utf-8'')
   \<and> encode_email_part (replicate 991 97) ''html''
       = Inr (MIMEText (replicate 991 97) ''html'' ''utf-8'')
   \<and> encode_email_part [104, 0xDC00] ''plain'' = Inl UnicodeEncodeError"
proof -
  have long: "splitlines (replicate 991 97) = [replicate 991 97]"
    by (rule splitlines_one_line) simp_all
  have 1: "encode_email_part [104, 105, 10] ''plain''
             = Inr (MIMEText [104, 105, 10] ''plain'' ''ascii'')"
    using encode_email_part_charset [of "[104, 105, 10]" "''plain''"]
    by (simp add: splitlines_def MAX_MAIL_LINE_OCTETS_def)
  have 2: "encode_email_part [104, 0xE9] ''plain''
             = Inr (MIMEText [104, 0xC3, 0xA9] ''plain'' ''utf-8'')"
    using encode_email_part_charset [of "[104, 0xE9]" "''plain''"]
    by (simp add: utf8_char_def)
  have 3: "encode_email_part (replicate 991 97) ''html''
             = Inr (MIMEText (replicate 991 97) ''html'' ''utf-8'')"
    using encode_email_part_charset [of "replicate 991 97" "''html''"]
    by (simp add: long MAX_MAIL_LINE_OCTETS_def encode_utf8_ascii)
  have 4: "encode_email_part [104, 0xDC00] ''plain'' = Inl UnicodeEncodeError"
    using encode_email_part_charset [of "[104, 0xDC00]" "''plain''"]
    by (simp add: utf8_char_def)
  from 1 2 3 4 show ?thesis by simp
qed

subsection \<open>\<^verbatim>\<open>parse_message\<close>: the shape of the result\<close>

lemma text_payload_Inr: "text_payload p = Inr pl \<longleftrightarrow> stored_payload p pl"
  by (cases p; cases pl) (auto simp: text_payload_def stored_payload_def split: sum.splits)

lemma text_payload_Inl: "(\<exists>e. text_payload p = Inl e) \<longleftrightarrow> \<not> decodable p"
  by (cases p) (auto simp: text_payload_def decodable_def split: sum.splits)

lemma build_parts_Inr:
  "build_parts mid irt refs ps = Inr ds \<longleftrightarrow> list_all2 (entry_of mid irt refs) ps ds"
proof (induction ps arbitrary: ds)
  case Nil
  then show ?case by auto
next
  case (Cons p ps)
  show ?case
  proof (cases ds)
    case Nil
    then show ?thesis by (auto split: sum.splits)
  next
    case (Cons d ds')
    then show ?thesis
      using Cons.IH [of ds']
      by (cases d) (auto simp: entry_of_def text_payload_Inr [symmetric] split: sum.splits)
  qed
qed

lemma build_parts_Inl:
  "(\<exists>e. build_parts mid irt refs ps = Inl e) \<longleftrightarrow> (\<exists>p \<in> set ps. \<not> decodable p)"
  by (induction ps) (auto simp: text_payload_Inl [symmetric] split: sum.splits)

lemma sum_cases_Inr: "(\<nexists>e. x = Inl e) \<Longrightarrow> \<exists>y. x = Inr y"
  by (cases x) auto

lemma parse_message_id_of_str:
  "str_header hs name \<Longrightarrow>
   parse_message_id_of (msg_get hs name) = Inr (parse_message_id (header_get hs name))"
  by (cases "header_get hs name")
     (simp_all add: str_header_def msg_get_def header_fetch_parse_def parse_message_id_def)

lemma parse_message_id_of_header:
  "\<not> str_header hs name \<Longrightarrow> parse_message_id_of (msg_get hs name) = Inl TypeError"
  by (cases "header_get hs name")
     (simp_all add: str_header_def msg_get_def header_fetch_parse_def)

lemma parse_message_id_of_Inr:
  "parse_message_id_of (msg_get hs name) = Inr ids \<Longrightarrow>
   str_header hs name \<and> ids = parse_message_id (header_get hs name)"
  by (cases "str_header hs name")
     (simp_all add: parse_message_id_of_str parse_message_id_of_header)

lemma dict_msg_first:
  "dict_msg ((name, v) # hs) name = Some (header_fetch_parse v)"
  by (simp add: dict_msg_def msg_get_def)

lemma dict_msg_dom: "dom (dict_msg hs) = set (map fst hs)"
proof -
  have "header_get hs name \<noteq> None" if "(name, v) \<in> set hs" for name v
    using that by (induction hs) auto
  then show ?thesis
    by (auto simp: dict_msg_def msg_get_def dom_def split: if_splits)
qed

text \<open>
  C4, as stated: for every raw email payload, \<^verbatim>\<open>parse_message\<close> returns a dictionary.
  \<^verbatim>\<open>six.ensure_text\<close> decodes the payload of a text part as UTF-8, strictly, outside any
  \<^verbatim>\<open>try\<close>: for a \<^verbatim>\<open>text/plain\<close> message whose body, once the base64 transfer encoding
  is undone, is the Latin-1 octet E9, \<^verbatim>\<open>parse_message\<close> raises \<^verbatim>\<open>UnicodeDecodeError\<close>.
\<close>

theorem parse_message_latin1_counterexample:
  "parse_message (\<lambda>raw. example_latin1_message) ''gen@forge'' [] = Inl UnicodeDecodeError"
  by (simp add: parse_message_def example_latin1_message_def text_payload_def
        get_content_maintype_def msg_get_def lower_def lower_char_def)

text \<open>
  C4, amended: let the data be text that can be encoded as UTF-8 and \<open>msg\<close> the message
  that the parser returns for the encoding.

  \<^item> When the first \<^verbatim>\<open>Message-ID\<close>, the first \<^verbatim>\<open>In-Reply-To\<close> and the first \<^verbatim>\<open>References\<close>
    field of \<open>msg\<close>, as far as they are there, are ASCII, and \<open>msg\<close> and every part in
    \<^verbatim>\<open>msg.walk()\<close> is decodable (its content maintype is not \<^verbatim>\<open>text\<close>, or it is a body of
    valid UTF-8), \<^verbatim>\<open>parse_message\<close> returns a dictionary \<open>r\<close> with \<^verbatim>\<open>'multipart'\<close>,
    \<^verbatim>\<open>'headers'\<close>, \<^verbatim>\<open>'message_id'\<close>, \<^verbatim>\<open>'in_reply_to'\<close> and \<^verbatim>\<open>'references'\<close>. Its \<^verbatim>\<open>'headers'\<close>
    is \<^verbatim>\<open>dict(msg)\<close>: every field name that occurs, with the value of the first field of that
    name compared without case, which is a \<^verbatim>\<open>str\<close>, or an \<^verbatim>\<open>email.header.Header\<close> for a
    value that is not ASCII. Its \<^verbatim>\<open>'in_reply_to'\<close> and \<^verbatim>\<open>'references'\<close> are the identifiers
    found in the first fields of these names. When \<open>msg\<close> is multipart, \<open>r\<close> has no
    \<^verbatim>\<open>'payload'\<close> and its \<^verbatim>\<open>'parts'\<close> has one entry, in order, for each message of
    \<^verbatim>\<open>msg.walk()\<close>, which is \<open>msg\<close> itself and every part below it; an entry has the headers
    (\<^verbatim>\<open>dict(part)\<close>), content type and file name of its part, the payload of its part, and
    the \<^verbatim>\<open>message_id\<close>, \<^verbatim>\<open>in_reply_to\<close> and \<^verbatim>\<open>references\<close> of \<open>r\<close>. When \<open>msg\<close> is not
    multipart, \<open>r\<close> has no \<^verbatim>\<open>'parts'\<close> and one \<^verbatim>\<open>'payload'\<close>. A payload is text for the content
    maintype \<^verbatim>\<open>text\<close>, and otherwise what \<^verbatim>\<open>get_payload(decode=True)\<close> returns: bytes, or
    \<^verbatim>\<open>None\<close> for a multipart container.
  \<^item> When one of these three fields is not ASCII, \<^verbatim>\<open>parse_message\<close> raises \<^verbatim>\<open>TypeError\<close>.
  \<^item> When they are, and \<open>msg\<close> or one of its parts is not decodable, \<^verbatim>\<open>parse_message\<close>
    raises.
\<close>

theorem parse_message_result:
  assumes "encode_utf8 data = Inr raw" and "msg = parsebytes raw"
  shows
  "(str_header (msg_headers msg) ''Message-ID'' \<and> str_header (msg_headers msg) ''In-Reply-To'' \<and>
    str_header (msg_headers msg) ''References'' \<and> (\<forall>p \<in> set (walk msg). decodable p) \<longrightarrow>
      (\<exists>r. parse_message parsebytes gen_message_id data = Inr r
         \<and> multipart r = is_multipart msg
         \<and> headers r = dict_msg (msg_headers msg)
         \<and> in_reply_to r = parse_message_id (header_get (msg_headers msg) ''In-Reply-To'')
         \<and> references r = parse_message_id (header_get (msg_headers msg) ''References'')
         \<and> (is_multipart msg \<longrightarrow>
              payload r = None \<and>
              (\<exists>ds. parts r = Some ds \<and>
                    list_all2 (entry_of (message_id r) (in_reply_to r) (references r))
                      (walk msg) ds))
         \<and> (\<not> is_multipart msg \<longrightarrow>
              parts r = None \<and> (\<exists>pl. payload r = Some pl \<and> stored_payload msg pl))))
   \<and> (\<not> (str_header (msg_headers msg) ''Message-ID'' \<and>
          str_header (msg_headers msg) ''In-Reply-To'' \<and>
          str_header (msg_headers msg) ''References'') \<longrightarrow>
        parse_message parsebytes gen_message_id data = Inl TypeError)
   \<and> (str_header (msg_headers msg) ''Message-ID'' \<and> str_header (msg_headers msg) ''In-Reply-To'' \<and>
      str_header (msg_headers msg) ''References'' \<and> \<not> (\<forall>p \<in> set (walk msg). decodable p) \<longrightarrow>
        (\<exists>e. parse_message parsebytes gen_message_id data = Inl e))"
proof (cases "str_header (msg_headers msg) ''Message-ID'' \<and>
    str_header (msg_headers msg) ''In-Reply-To'' \<and> str_header (msg_headers msg) ''References''")
  case False
  have "parse_message parsebytes gen_message_id data = Inl TypeError"
  proof (cases "str_header (msg_headers msg) ''Message-ID''")
    case a: False
    with assms show ?thesis
      by (simp add: parse_message_def parse_message_id_of_header)
  next
    case a: True
    show ?thesis
    proof (cases "str_header (msg_headers msg) ''In-Reply-To''")
      case b: False
      with a assms show ?thesis
        by (simp add: parse_message_def parse_message_id_of_header parse_message_id_of_str)
    next
      case b: True
      with a False have "\<not> str_header (msg_headers msg) ''References''" by simp
      with a b assms show ?thesis
        by (simp add: parse_message_def parse_message_id_of_header parse_message_id_of_str)
    qed
  qed
  with False show ?thesis by blast
next
  case str: True
  let ?ids = "parse_message_id (header_get (msg_headers msg) ''Message-ID'')"
  let ?mid = "case ?ids of [] \<Rightarrow> gen_message_id | first # others \<Rightarrow> first"
  let ?irt = "parse_message_id (header_get (msg_headers msg) ''In-Reply-To'')"
  let ?refs = "parse_message_id (header_get (msg_headers msg) ''References'')"
  show ?thesis
  proof (cases "is_multipart msg")
    case True
    show ?thesis
    proof (cases "\<forall>p \<in> set (walk msg). decodable p")
      case ok: True
      then have "\<nexists>e. build_parts ?mid ?irt ?refs (walk msg) = Inl e"
        by (simp add: build_parts_Inl)
      then obtain ds where ds: "build_parts ?mid ?irt ?refs (walk msg) = Inr ds"
        using sum_cases_Inr by blast
      then have "list_all2 (entry_of ?mid ?irt ?refs) (walk msg) ds"
        by (simp add: build_parts_Inr)
      with ds ok True str assms show ?thesis
        by (simp add: parse_message_def Let_def parse_message_id_of_str)
    next
      case bad: False
      then obtain e where "build_parts ?mid ?irt ?refs (walk msg) = Inl e"
        using build_parts_Inl [of ?mid ?irt ?refs "walk msg"] by blast
      with bad True str assms show ?thesis
        by (simp add: parse_message_def Let_def parse_message_id_of_str)
    qed
  next
    case False
    then have w: "walk msg = [msg]" by (cases msg) simp_all
    show ?thesis
    proof (cases "decodable msg")
      case ok: True
      then have "\<nexists>e. text_payload msg = Inl e"
        by (simp add: text_payload_Inl)
      then obtain pl where pl: "text_payload msg = Inr pl"
        using sum_cases_Inr by blast
      then have "stored_payload msg pl" by (simp add: text_payload_Inr)
      with pl ok False w str assms show ?thesis
        by (simp add: parse_message_def Let_def parse_message_id_of_str)
    next
      case bad: False
      then obtain e where "text_payload msg = Inl e"
        using text_payload_Inl [of msg] by blast
      with bad False w str assms show ?thesis
        by (simp add: parse_message_def Let_def parse_message_id_of_str)
    qed
  qed
qed

text \<open>
  C4 at the multipart example, at the plain example, where of the two \<^verbatim>\<open>Received\<close> fields
  the first is kept, at the Latin-1 example and at the example with a \<^verbatim>\<open>Message-ID\<close> that
  is not ASCII.
\<close>

theorem parse_message_result_witness:
  "(\<exists>r. parse_message (\<lambda>raw. example_multipart_message) ''gen@forge'' [] = Inr r
      \<and> multipart r = True
      \<and> headers r = dict_msg (msg_headers example_multipart_message)
      \<and> in_reply_to r = []
      \<and> references r = [''a@x'', ''b@x'']
      \<and> payload r = None
      \<and> (\<exists>ds. parts r = Some ds \<and>
            list_all2 (entry_of (message_id r) (in_reply_to r) (references r))
              (walk example_multipart_message) ds))
   \<and> (\<exists>r. parse_message (\<lambda>raw. example_plain_message) ''gen@forge'' [] = Inr r
      \<and> multipart r = False
      \<and> headers r = dict_msg (msg_headers example_plain_message)
      \<and> headers r ''Received'' = Some (StrValue ''a'')
      \<and> headers r ''received'' = None
      \<and> in_reply_to r = []
      \<and> references r = []
      \<and> parts r = None \<and> payload r = Some (PText [104, 105]))
   \<and> (\<exists>e. parse_message (\<lambda>raw. example_latin1_message) ''gen@forge'' [] = Inl e)
   \<and> parse_message (\<lambda>raw. example_non_ascii_id_message) ''gen@forge'' [] = Inl TypeError"
proof -
  have enc: "encode_utf8 [] = Inr []" by simp
  have 1: "\<forall>p \<in> set (walk example_multipart_message). decodable p"
    by (simp add: example_multipart_message_def decodable_def get_content_maintype_def
          continuation_def)
  have 2: "\<forall>p \<in> set (walk example_plain_message). decodable p"
    by (simp add: example_plain_message_def decodable_def get_content_maintype_def)
  have 3: "\<not> (\<forall>p \<in> set (walk example_latin1_message). decodable p)"
    by (simp add: example_latin1_message_def decodable_def get_content_maintype_def)
  have s1: "str_header (msg_headers example_multipart_message) ''Message-ID''"
    "str_header (msg_headers example_multipart_message) ''In-Reply-To''"
    "str_header (msg_headers example_multipart_message) ''References''"
    by (simp_all add: example_multipart_message_def str_header_def lower_def lower_char_def)
  have s2: "str_header (msg_headers example_plain_message) ''Message-ID''"
    "str_header (msg_headers example_plain_message) ''In-Reply-To''"
    "str_header (msg_headers example_plain_message) ''References''"
    by (simp_all add: example_plain_message_def str_header_def lower_def lower_char_def)
  have s3: "str_header (msg_headers example_latin1_message) ''Message-ID''"
    "str_header (msg_headers example_latin1_message) ''In-Reply-To''"
    "str_header (msg_headers example_latin1_message) ''References''"
    by (simp_all add: example_latin1_message_def str_header_def lower_def lower_char_def)
  have s4: "\<not> str_header (msg_headers example_non_ascii_id_message) ''Message-ID''"
    by (simp add: example_non_ascii_id_message_def str_header_def lower_def lower_char_def)
  have refs: "parse_message_id (header_get (msg_headers example_multipart_message) ''References'')
                = [''a@x'', ''b@x'']"
    by (simp add: example_multipart_message_def parse_message_id_def lower_def lower_char_def
          RE_MESSAGE_ID_finditer.simps group1_def)
  have irt: "parse_message_id (header_get (msg_headers example_multipart_message) ''In-Reply-To'') = []"
    by (simp add: example_multipart_message_def parse_message_id_def lower_def lower_char_def)
  have ids: "parse_message_id (header_get (msg_headers example_plain_message) ''References'') = []"
     "parse_message_id (header_get (msg_headers example_plain_message) ''In-Reply-To'') = []"
    by (simp_all add: example_plain_message_def parse_message_id_def lower_def lower_char_def)
  have m: "is_multipart example_multipart_message" "\<not> is_multipart example_plain_message"
    by (simp_all add: example_multipart_message_def example_plain_message_def)
  have sp: "stored_payload example_plain_message pl \<longleftrightarrow> pl = PText [104, 105]" for pl
    by (cases pl) (auto simp: stored_payload_def example_plain_message_def get_content_maintype_def)
  have rc: "dict_msg (msg_headers example_plain_message) ''Received'' = Some (StrValue ''a'')"
    "dict_msg (msg_headers example_plain_message) ''received'' = None"
    by (simp_all add: example_plain_message_def dict_msg_def msg_get_def header_fetch_parse_def
          lower_def lower_char_def)
  have A: "\<exists>r. parse_message (\<lambda>raw. example_multipart_message) ''gen@forge'' [] = Inr r
      \<and> multipart r = True
      \<and> headers r = dict_msg (msg_headers example_multipart_message)
      \<and> in_reply_to r = []
      \<and> references r = [''a@x'', ''b@x'']
      \<and> payload r = None
      \<and> (\<exists>ds. parts r = Some ds \<and>
            list_all2 (entry_of (message_id r) (in_reply_to r) (references r))
              (walk example_multipart_message) ds)"
    using parse_message_result [OF enc refl, of "\<lambda>raw. example_multipart_message" "''gen@forge''"] 1 s1
    by (simp add: refs irt m)
  have B: "\<exists>r. parse_message (\<lambda>raw. example_plain_message) ''gen@forge'' [] = Inr r
      \<and> multipart r = False
      \<and> headers r = dict_msg (msg_headers example_plain_message)
      \<and> headers r ''Received'' = Some (StrValue ''a'')
      \<and> headers r ''received'' = None
      \<and> in_reply_to r = []
      \<and> references r = []
      \<and> parts r = None \<and> payload r = Some (PText [104, 105])"
    using parse_message_result [OF enc refl, of "\<lambda>raw. example_plain_message" "''gen@forge''"] 2 s2
    by (auto simp: ids m sp rc)
  have C: "\<exists>e. parse_message (\<lambda>raw. example_latin1_message) ''gen@forge'' [] = Inl e"
    using parse_message_result [OF enc refl, of "\<lambda>raw. example_latin1_message" "''gen@forge''"] 3 s3
    by simp
  have D: "parse_message (\<lambda>raw. example_non_ascii_id_message) ''gen@forge'' [] = Inl TypeError"
    using parse_message_result [OF enc refl, of "\<lambda>raw. example_non_ascii_id_message" "''gen@forge''"] s4
    by simp
  show ?thesis by (rule conjI [OF A conjI [OF B conjI [OF C D]]])
qed

subsection \<open>\<^verbatim>\<open>parse_message\<close>: the message identifier\<close>

lemma finditer_no_lt: "CHR ''<'' \<notin> set s \<Longrightarrow> RE_MESSAGE_ID_finditer s = []"
proof -
  assume "CHR ''<'' \<notin> set s"
  then have d: "dropWhile (\<lambda>c. c \<noteq> CHR ''<'') s = []" by auto
  show ?thesis by (subst RE_MESSAGE_ID_finditer.simps) (simp only: d list.case)
qed

lemma finditer_no_gt:
  assumes "CHR ''<'' \<notin> set pre" and "CHR ''>'' \<notin> set rest"
  shows "RE_MESSAGE_ID_finditer (pre @ ''<'' @ rest) = []"
proof -
  have "dropWhile (\<lambda>c. c \<noteq> CHR ''<'') (pre @ ''<'' @ rest) = CHR ''<'' # rest"
    using assms(1) by (simp add: dropWhile_append)
  with assms(2) show ?thesis
    by (subst RE_MESSAGE_ID_finditer.simps) simp
qed

lemma finditer_first:
  assumes "CHR ''<'' \<notin> set pre" and "CHR ''>'' \<notin> set body"
  shows "RE_MESSAGE_ID_finditer (pre @ ''<'' @ body @ ''>'' @ post)
           = group1 body # RE_MESSAGE_ID_finditer post"
proof -
  have "dropWhile (\<lambda>c. c \<noteq> CHR ''<'') (pre @ ''<'' @ body @ ''>'' @ post)
          = CHR ''<'' # body @ ''>'' @ post"
    using assms(1) by (simp add: dropWhile_append)
  moreover have "takeWhile (\<lambda>c. c \<noteq> CHR ''>'') (body @ ''>'' @ post) = body"
    using assms(2) by (simp add: takeWhile_append)
  moreover have "dropWhile (\<lambda>c. c \<noteq> CHR ''>'') (body @ ''>'' @ post) = CHR ''>'' # post"
    using assms(2) by (simp add: dropWhile_append)
  ultimately show ?thesis
    by (subst RE_MESSAGE_ID_finditer.simps) simp
qed

lemma group1_no_slash: "CHR ''/'' \<notin> set body \<Longrightarrow> group1 body = body"
  by (simp add: group1_def)

lemma group1_last_slash: "CHR ''/'' \<notin> set b \<Longrightarrow> group1 (a @ ''/'' @ b) = b"
  by (simp add: group1_def takeWhile_append)

lemma parse_message_message_id_value:
  assumes "parse_message parsebytes gen_message_id data = Inr r" and "encode_utf8 data = Inr raw"
  shows "message_id r =
           (case parse_message_id (header_get (msg_headers (parsebytes raw)) ''Message-ID'') of
              [] \<Rightarrow> gen_message_id
            | first # others \<Rightarrow> first)"
  using assms
  by (auto simp: parse_message_def Let_def dest!: parse_message_id_of_Inr
        split: sum.splits if_splits)

text \<open>
  C9, as stated: the \<^verbatim>\<open>'message_id'\<close> of the result is a single non-empty string. Group 1
  of \<^verbatim>\<open>RE_MESSAGE_ID\<close> is \<^verbatim>\<open>[^>]*\<close>, which matches the empty string, and \<^verbatim>\<open>parse_message\<close>
  generates an identifier only when the list of matches is empty: for the header
  \<^verbatim>\<open>Message-ID: <>\<close> the list is \<^verbatim>\<open>['']\<close> and the \<^verbatim>\<open>'message_id'\<close> is the empty string.
\<close>

theorem parse_message_empty_id_counterexample:
  "map_sum (\<lambda>e. e) message_id
     (parse_message (\<lambda>raw. example_empty_id_message) ''gen@forge'' []) = Inr []"
  by (simp add: parse_message_def example_empty_id_message_def text_payload_def
        get_content_maintype_def parse_message_id_def lower_def lower_char_def
        msg_get_def header_fetch_parse_def
        RE_MESSAGE_ID_finditer.simps group1_def continuation_def)

text \<open>
  C9, amended: whenever \<^verbatim>\<open>parse_message\<close> returns, its \<^verbatim>\<open>'message_id'\<close> is a single
  string (a field of type \<open>string\<close>), namely
  \<^item> the generated identifier, when the message has no \<^verbatim>\<open>Message-ID\<close> header, or the header
    has no \<^verbatim>\<open><\<close>, or no \<^verbatim>\<open>></\<close> after its first \<^verbatim>\<open><\<close>;
  \<^item> otherwise, with \<open>body\<close> the text between the first \<^verbatim>\<open><\<close> of the header and the first
    \<^verbatim>\<open>></\<close> after it: \<open>body\<close> itself when it has no \<^verbatim>\<open>/\<close>, and what follows its last \<^verbatim>\<open>/\<close>
    when it has one. This string is empty when \<open>body\<close> is empty or ends with \<^verbatim>\<open>/\<close>.
\<close>

theorem parse_message_message_id:
  assumes "parse_message parsebytes gen_message_id data = Inr r"
    and "encode_utf8 data = Inr raw"
    and "hdr = header_get (msg_headers (parsebytes raw)) ''Message-ID''"
  shows
  "(hdr = None \<longrightarrow> message_id r = gen_message_id)
   \<and> (hdr = Some s \<and> CHR ''<'' \<notin> set s \<longrightarrow> message_id r = gen_message_id)
   \<and> (hdr = Some (pre @ ''<'' @ rest) \<and> CHR ''<'' \<notin> set pre \<and> CHR ''>'' \<notin> set rest \<longrightarrow>
        message_id r = gen_message_id)
   \<and> (hdr = Some (pre @ ''<'' @ body @ ''>'' @ post) \<and> CHR ''<'' \<notin> set pre \<and>
      CHR ''>'' \<notin> set body \<longrightarrow>
        (CHR ''/'' \<notin> set body \<longrightarrow> message_id r = body)
      \<and> (body = a @ ''/'' @ b \<and> CHR ''/'' \<notin> set b \<longrightarrow> message_id r = b))"
proof -
  note v = parse_message_message_id_value [OF assms(1,2), folded assms(3)]
  have 1: "message_id r = gen_message_id" if "hdr = None"
    using v that by (simp add: parse_message_id_def)
  have 2: "message_id r = gen_message_id" if "hdr = Some s" "CHR ''<'' \<notin> set s"
    using v that by (simp add: parse_message_id_def finditer_no_lt)
  have 3: "message_id r = gen_message_id"
    if "hdr = Some (pre @ ''<'' @ rest)" "CHR ''<'' \<notin> set pre" "CHR ''>'' \<notin> set rest"
    using v that finditer_no_gt [of pre rest] by (simp add: parse_message_id_def)
  have 4: "message_id r = group1 body"
    if "hdr = Some (pre @ ''<'' @ body @ ''>'' @ post)" "CHR ''<'' \<notin> set pre"
       "CHR ''>'' \<notin> set body"
    using v that finditer_first [of pre body post] by (simp add: parse_message_id_def)
  from 1 2 3 4 show ?thesis
    by (auto simp: group1_no_slash group1_last_slash simp del: append.simps append_assoc)
qed

text \<open>C9 at a header with a path before the identifier, and at a message without the header.\<close>

theorem parse_message_message_id_witness:
  "(\<exists>r. parse_message (\<lambda>raw. example_plain_message) ''gen@forge'' [] = Inr r
        \<and> message_id r = ''abc@mail.example.org'')
   \<and> (\<exists>r. parse_message (\<lambda>raw. example_multipart_message) ''gen@forge'' [] = Inr r
        \<and> message_id r = ''gen@forge'')"
proof -
  have enc: "encode_utf8 [] = Inr []" by simp
  have "\<exists>r. parse_message (\<lambda>raw. example_plain_message) ''gen@forge'' [] = Inr r"
    by (simp add: parse_message_def example_plain_message_def text_payload_def
          get_content_maintype_def Let_def continuation_def
          msg_get_def header_fetch_parse_def lower_def lower_char_def)
  then obtain r1 where r1: "parse_message (\<lambda>raw. example_plain_message) ''gen@forge'' [] = Inr r1" ..
  have h1: "header_get (msg_headers example_plain_message) ''Message-ID''
              = Some ([] @ ''<'' @ (''forge'' @ ''/'' @ ''abc@mail.example.org'') @ ''>'' @ [])"
    by (simp add: example_plain_message_def lower_def lower_char_def)
  have "message_id r1 = ''abc@mail.example.org''"
    using parse_message_message_id [OF r1 enc refl, where pre = "[]"
            and body = "''forge'' @ ''/'' @ ''abc@mail.example.org''" and post = "[]"
            and a = "''forge''" and b = "''abc@mail.example.org''"]
    by (simp add: h1)
  with r1 have A: "\<exists>r. parse_message (\<lambda>raw. example_plain_message) ''gen@forge'' [] = Inr r
        \<and> message_id r = ''abc@mail.example.org''" by blast
  have "\<exists>r. parse_message (\<lambda>raw. example_multipart_message) ''gen@forge'' [] = Inr r"
    by (simp add: parse_message_def example_multipart_message_def text_payload_def
          get_content_maintype_def Let_def continuation_def
          msg_get_def header_fetch_parse_def lower_def lower_char_def)
  then obtain r2 where r2: "parse_message (\<lambda>raw. example_multipart_message) ''gen@forge'' [] = Inr r2" ..
  have h2: "header_get (msg_headers example_multipart_message) ''Message-ID'' = None"
    by (simp add: example_multipart_message_def lower_def lower_char_def)
  have "message_id r2 = ''gen@forge''"
    using parse_message_message_id [OF r2 enc refl] by (simp add: h2)
  with r2 have B: "\<exists>r. parse_message (\<lambda>raw. example_multipart_message) ''gen@forge'' [] = Inr r
        \<and> message_id r = ''gen@forge''" by blast
  show ?thesis by (rule conjI [OF A B])
qed

subsection \<open>\<^verbatim>\<open>sendmail\<close>: nothing is sent without a valid recipient\<close>

lemma send_raw_log:
  "\<exists>new. log (snd (send_raw srv st f rs m)) = log st @ new \<and>
         (\<forall>ev \<in> set new. ev = Connect \<or> (\<exists>c. ev = Sendmail c f rs m))"
proof (cases "client st")
  case None
  show ?thesis
  proof (cases "outcome srv (length (log st))")
    case out: None
    let ?st0 = "st\<lparr>log := log st @ [Connect], client := Some (length (log st))\<rparr>"
    have c: "client ?st0 = Some (length (log st))" by simp
    have "send_raw srv st f rs m = send_raw srv ?st0 f rs m"
      using None out by (simp add: send_raw_def smtp_connect_def)
    then show ?thesis
      by (auto simp: send_raw_connected [OF c]
               split: sum.splits bool.splits option.splits)
  next
    case (Some e)
    with None show ?thesis
      by (simp add: send_raw_def smtp_connect_def)
  qed
next
  case (Some c)
  then show ?thesis
    by (auto simp: send_raw_connected split: sum.splits bool.splits option.splits)
qed

lemma cc_header_addrs:
  "snd (cc_header message addrs cc)
     = addrs @ (case cc of Some c \<Rightarrow> if c \<noteq> [] then [c] else [] | None \<Rightarrow> [])"
  by (simp add: cc_header_def split: option.splits)

lemma deliver_no_address:
  "filter (isvalid env) (map (parse_smtp_addr (noreply env)) addrs) = [] \<Longrightarrow>
   deliver env srv st message addrs = (None, st, message, addrs)"
  by (simp add: deliver_def Let_def)

lemma deliver_log:
  "\<exists>new. log (fst (snd (deliver env srv st message addrs))) = log st @ new
     \<and> (\<forall>ev \<in> set new. ev = Connect \<or>
           (\<exists>c rs m. ev = Sendmail c (return_path env) rs m \<and> rs \<noteq> [] \<and>
                     (\<forall>a \<in> set rs. isvalid env a)))"
proof (cases "filter (isvalid env) (map (parse_smtp_addr (noreply env)) addrs) = []")
  case True
  then show ?thesis by (simp add: deliver_no_address)
next
  case False
  define rs where "rs = filter (isvalid env) (map (parse_smtp_addr (noreply env)) addrs)"
  define m where "m = as_string env message
     (int MAX_MAIL_LINE_OCTETS - (2 + int (fold max (map (\<lambda>h. length (fst h)) (msg_fields message)) 0)))"
  have valid: "\<forall>a \<in> set rs. isvalid env a" by (simp add: rs_def)
  have ne: "rs \<noteq> []" using False by (simp add: rs_def)
  have d: "fst (snd (deliver env srv st message addrs))
             = snd (send_raw srv st (return_path env) rs m)"
    using False by (simp add: deliver_def Let_def rs_def m_def split: prod.splits)
  obtain new where new: "log (snd (send_raw srv st (return_path env) rs m)) = log st @ new"
      "\<forall>ev \<in> set new. ev = Connect \<or> (\<exists>c. ev = Sendmail c (return_path env) rs m)"
    using send_raw_log [of srv st "return_path env" rs m] by blast
  from new(2) ne valid
  have "\<forall>ev \<in> set new. ev = Connect \<or>
           (\<exists>c rs m. ev = Sendmail c (return_path env) rs m \<and> rs \<noteq> [] \<and>
                     (\<forall>a \<in> set rs. isvalid env a))"
    by blast
  with new(1) d show ?thesis by auto
qed

text \<open>
  C8: (1) called with an empty list of recipients, \<^verbatim>\<open>sendmail\<close> returns at once: the
  message has no new header field, the client is as it was (no connection attempt, no
  delivery attempt), the list is still empty. (2) When no address is left after
  \<^verbatim>\<open>_parse_smtp_addr\<close> and the filter \<^verbatim>\<open>isvalid\<close> have been applied to the recipients (to
  which a non-empty \<^verbatim>\<open>cc\<close> has been appended), the client is as it was: \<^verbatim>\<open>send_raw\<close> is not
  called. (3) In every run, what \<^verbatim>\<open>sendmail\<close> adds to the log of the client are connection
  attempts and delivery attempts from \<^verbatim>\<open>config.return_path\<close> whose list of recipients is
  not empty and holds valid addresses only.
\<close>

theorem sendmail_needs_recipient:
  "sendmail env srv st [] fromaddr reply_to subject mid irt message sender refs cc to
     = (None, st, message, [])
   \<and> (filter (isvalid env) (map (parse_smtp_addr (noreply env))
          (addrs @ (case cc of Some c \<Rightarrow> if c \<noteq> [] then [c] else [] | None \<Rightarrow> []))) = [] \<longrightarrow>
        fst (snd (sendmail env srv st addrs fromaddr reply_to subject mid irt message
                    sender refs cc to)) = st)
   \<and> (\<exists>new. log (fst (snd (sendmail env srv st addrs fromaddr reply_to subject mid irt message
                              sender refs cc to))) = log st @ new
         \<and> (\<forall>ev \<in> set new. ev = Connect \<or>
               (\<exists>c rs m. ev = Sendmail c (return_path env) rs m \<and> rs \<noteq> [] \<and>
                         (\<forall>a \<in> set rs. isvalid env a))))"
proof -
  let ?run = "\<lambda>addrs. sendmail env srv st addrs fromaddr reply_to subject mid irt message
                        sender refs cc to"
  let ?ccs = "case cc of Some c \<Rightarrow> if c \<noteq> [] then [c] else [] | None \<Rightarrow> []"
  let ?good = "\<lambda>new. \<forall>ev \<in> set new. ev = Connect \<or>
               (\<exists>c rs m. ev = Sendmail c (return_path env) rs m \<and> rs \<noteq> [] \<and>
                         (\<forall>a \<in> set rs. isvalid env a))"
  have 1: "?run [] = (None, st, message, [])"
    by (simp add: sendmail_def)
  obtain m2 addrs' where cc: "cc_header
       (basic_headers env message fromaddr reply_to subject mid sender to) addrs cc = (m2, addrs')"
    by (cases "cc_header (basic_headers env message fromaddr reply_to subject mid sender to) addrs cc")
  then have addrs': "addrs' = addrs @ ?ccs"
    using cc_header_addrs [of "basic_headers env message fromaddr reply_to subject mid sender to"
            addrs cc] by simp
  have cases: "fst (snd (?run addrs)) = st \<or>
     (\<exists>m3. fst (snd (?run addrs)) = fst (snd (deliver env srv st m3 addrs')))"
  proof (cases "addrs = []")
    case True
    then show ?thesis by (simp add: sendmail_def)
  next
    case False
    show ?thesis
    proof (cases "reply_headers env m2 irt refs")
      case (Inl failure)
      with False cc show ?thesis
        by (cases failure) (simp add: sendmail_def)
    next
      case (Inr m3)
      with False cc show ?thesis
        by (auto simp: sendmail_def)
    qed
  qed
  have 2: "fst (snd (?run addrs)) = st"
    if "filter (isvalid env) (map (parse_smtp_addr (noreply env)) (addrs @ ?ccs)) = []"
    using cases that deliver_no_address [of env addrs' srv st] addrs' by auto
  have 3: "\<exists>new. log (fst (snd (?run addrs))) = log st @ new \<and> ?good new"
    using cases
  proof
    assume "fst (snd (?run addrs)) = st"
    then have "log (fst (snd (?run addrs))) = log st @ [] \<and> ?good []" by simp
    then show ?thesis by blast
  next
    assume "\<exists>m3. fst (snd (?run addrs)) = fst (snd (deliver env srv st m3 addrs'))"
    then obtain m3 where "fst (snd (?run addrs)) = fst (snd (deliver env srv st m3 addrs'))" ..
    with deliver_log [of env srv st m3 addrs'] show ?thesis by simp
  qed
  from 1 2 3 show ?thesis by blast
qed

text \<open>
  C8 in the example environment: no recipient; a recipient and a \<^verbatim>\<open>cc\<close> that are both
  replaced by the invalid \<^verbatim>\<open>g.noreply\<close>; and a list with one valid recipient.
\<close>

theorem sendmail_needs_recipient_witness:
  "sendmail example_env [None, None] \<lparr>client = None, log = []\<rparr> []
       ''from@x'' ''reply@x'' ''Subj'' ''id1@x'' (StrArg ''id0@x'')
       \<lparr>msg_fields = [], msg_body = ''hello''\<rparr> None NoneArg (Some ''nobody'') None
     = (None, \<lparr>client = None, log = []\<rparr>, \<lparr>msg_fields = [], msg_body = ''hello''\<rparr>, [])
   \<and> fst (snd (sendmail example_env [None, None] \<lparr>client = None, log = []\<rparr> [''somebody'']
       ''from@x'' ''reply@x'' ''Subj'' ''id1@x'' (StrArg ''id0@x'')
       \<lparr>msg_fields = [], msg_body = ''hello''\<rparr> None NoneArg (Some ''nobody'') None))
     = \<lparr>client = None, log = []\<rparr>
   \<and> (\<exists>new. log (fst (snd (sendmail example_env [None, None] \<lparr>client = None, log = []\<rparr>
                 [''Foo <foo@bar.com>'', ''somebody'']
                 ''from@x'' ''reply@x'' ''Subj'' ''id1@x'' (StrArg ''id0@x'')
                 \<lparr>msg_fields = [], msg_body = ''hello''\<rparr> None NoneArg (Some ''nobody'') None)))
               = [] @ new
         \<and> (\<forall>ev \<in> set new. ev = Connect \<or>
               (\<exists>c rs m. ev = Sendmail c ''bounce@forge.example.org'' rs m \<and> rs \<noteq> [] \<and>
                         (\<forall>a \<in> set rs. CHR ''@'' \<in> set a))))"
proof -
  let ?st = "\<lparr>client = None, log = []\<rparr>"
  let ?msg = "\<lparr>msg_fields = [], msg_body = ''hello''\<rparr>"
  have p: "parse_smtp_addr ''noreply'' ''somebody'' = ''noreply''"
          "parse_smtp_addr ''noreply'' ''nobody'' = ''noreply''"
    by (simp_all add: parse_smtp_addr_def parse_message_id_def finditer_no_lt)
  have env: "isvalid example_env = (\<lambda>a. CHR ''@'' \<in> set a)" "noreply example_env = ''noreply''"
            "return_path example_env = ''bounce@forge.example.org''"
    by (simp_all add: example_env_def)
  note T = sendmail_needs_recipient [of example_env "[None, None]" ?st "''from@x''" "''reply@x''"
             "''Subj''" "''id1@x''" "StrArg ''id0@x''" ?msg None NoneArg "Some ''nobody''" None]
  have 1: "sendmail example_env [None, None] ?st [] ''from@x'' ''reply@x'' ''Subj'' ''id1@x''
             (StrArg ''id0@x'') ?msg None NoneArg (Some ''nobody'') None = (None, ?st, ?msg, [])"
    using T [of "[]"] by simp
  have 2: "fst (snd (sendmail example_env [None, None] ?st [''somebody''] ''from@x'' ''reply@x''
             ''Subj'' ''id1@x'' (StrArg ''id0@x'') ?msg None NoneArg (Some ''nobody'') None)) = ?st"
    using T [of "[''somebody'']"] by (simp add: env p)
  have 3: "\<exists>new. log (fst (snd (sendmail example_env [None, None] ?st
                 [''Foo <foo@bar.com>'', ''somebody'']
                 ''from@x'' ''reply@x'' ''Subj'' ''id1@x'' (StrArg ''id0@x'')
                 ?msg None NoneArg (Some ''nobody'') None)))
               = [] @ new
         \<and> (\<forall>ev \<in> set new. ev = Connect \<or>
               (\<exists>c rs m. ev = Sendmail c ''bounce@forge.example.org'' rs m \<and> rs \<noteq> [] \<and>
                         (\<forall>a \<in> set rs. CHR ''@'' \<in> set a)))"
    using T [of "[''Foo <foo@bar.com>'', ''somebody'']"] by (simp add: env)
  show ?thesis by (rule conjI [OF 1 conjI [OF 2 3]])
qed

subsection \<open>\<^verbatim>\<open>get_facets\<close>: the facets of a search result\<close>

lemma xrange2_even: "xrange2 (2 * m) = map (\<lambda>k. 2 * k) [0..<m]"
  by (simp add: xrange2_def)

lemma pairs_at_in_range:
  "\<forall>i \<in> set is. i + 1 < length values \<Longrightarrow>
   pairs_at values is = Inr (map (\<lambda>i. (values ! i, values ! (i + 1))) is)"
  by (induction "is") auto

lemma length_consecutive_pairs: "length (consecutive_pairs xs) = length xs div 2"
  by (induction xs rule: consecutive_pairs.induct) auto

lemma nth_consecutive_pairs:
  "k < length xs div 2 \<Longrightarrow> consecutive_pairs xs ! k = (xs ! (2 * k), xs ! (2 * k + 1))"
proof (induction xs arbitrary: k rule: consecutive_pairs.induct)
  case (1 x y rest)
  then show ?case by (cases k) auto
qed auto

lemma pair_up_even:
  assumes "even (length values)"
  shows "pair_up values = Inr (consecutive_pairs values)"
proof -
  from assms obtain m where m: "length values = 2 * m" by (auto elim: evenE)
  have "pairs_at values (map (\<lambda>k. 2 * k) [0..<m])
          = Inr (map (\<lambda>i. (values ! i, values ! (i + 1))) (map (\<lambda>k. 2 * k) [0..<m]))"
    by (rule pairs_at_in_range) (auto simp: m)
  moreover have "map (\<lambda>i. (values ! i, values ! (i + 1))) (map (\<lambda>k. 2 * k) [0..<m])
          = consecutive_pairs values"
    by (rule nth_equalityI) (simp_all add: length_consecutive_pairs m nth_consecutive_pairs)
  ultimately show ?thesis by (simp add: pair_up_def m xrange2_even)
qed

lemma split1_prefix: "sep \<noteq> [] \<Longrightarrow> split1 sep (sep @ rest) = Some ([], rest)"
  by (cases sep) (simp_all add: startswith_def)

lemma field_name_suffix: "field_name (base @ ''_s'') = base"
proof -
  have "split1 (rev ''_s'') (rev (base @ ''_s'')) = Some ([], rev base)"
    using split1_prefix [of "rev ''_s''" "rev base"] by simp
  then show ?thesis by (simp add: field_name_def rsplit1_def)
qed

lemma set_available_values:
  "v \<in> set (available_values index tickets n) \<longleftrightarrow> list_ex (\<lambda>ticket. index ticket n = Some v) tickets"
  by (auto simp: available_values_def List.map_filter_def list_ex_iff image_iff)

lemma kept_pairs_filter:
  "(if given final_result
    then filter (\<lambda>v. fst v \<in> set (available_values index (the final_result) n))
           (consecutive_pairs vs)
    else consecutive_pairs vs) = kept_pairs index final_result n vs"
proof (cases final_result)
  case None
  then show ?thesis by (simp add: kept_pairs_def)
next
  case (Some tickets)
  have "filter (\<lambda>v. fst v \<in> set (available_values index tickets n)) (consecutive_pairs vs)
          = filter (\<lambda>(v, count). list_ex (\<lambda>ticket. index ticket n = Some v) tickets)
              (consecutive_pairs vs)"
    by (rule filter_cong) (auto simp: set_available_values)
  then show ?thesis unfolding kept_pairs_def Some by simp
qed

lemma facets_loop_result:
  assumes "distinct (map (\<lambda>(n, vs). field_name n) facets)"
    and "\<forall>(n, vs) \<in> set facets. even (length vs)"
  shows "\<exists>result. facets_loop index final_result facets acc = Inr result
           \<and> (\<forall>(n, vs) \<in> set facets.
                 result (field_name n) = Some (kept_pairs index final_result n vs))
           \<and> (\<forall>k. k \<notin> (\<lambda>(n, vs). field_name n) ` set facets \<longrightarrow> result k = acc k)"
  using assms
proof (induction facets arbitrary: acc)
  case Nil
  then show ?case by simp
next
  case (Cons f facets)
  obtain n vs where f: "f = (n, vs)" by (cases f)
  let ?acc = "acc(field_name n \<mapsto> kept_pairs index final_result n vs)"
  from Cons.prems f have ev: "even (length vs)"
    and fresh: "field_name n \<notin> (\<lambda>(n, vs). field_name n) ` set facets"
    and d: "distinct (map (\<lambda>(n, vs). field_name n) facets)"
    and evs: "\<forall>(n, vs) \<in> set facets. even (length vs)"
    by auto
  from Cons.IH [OF d evs, of ?acc] obtain result
    where r: "facets_loop index final_result facets ?acc = Inr result"
      and r1: "\<forall>(n, vs) \<in> set facets.
                 result (field_name n) = Some (kept_pairs index final_result n vs)"
      and r2: "\<forall>k. k \<notin> (\<lambda>(n, vs). field_name n) ` set facets \<longrightarrow> result k = ?acc k"
    by blast
  have step: "facets_loop index final_result (f # facets) acc = Inr result"
    using r ev by (simp add: f pair_up_even kept_pairs_filter)
  have "result (field_name n) = Some (kept_pairs index final_result n vs)"
    using r2 fresh by simp
  moreover have "\<forall>k. k \<notin> (\<lambda>(n, vs). field_name n) ` set (f # facets) \<longrightarrow> result k = acc k"
    using r2 by (auto simp: f)
  ultimately show ?case using step r1 by (auto simp: f)
qed

text \<open>
  C6, as stated: when the argument \<^verbatim>\<open>final_result\<close> is given, only the pairs whose value
  occurs among the facet values of the tickets in \<^verbatim>\<open>final_result\<close> are kept. The test is
  \<^verbatim>\<open>if final_result\<close>, which an empty list fails as \<^verbatim>\<open>None\<close> does: given an empty list of
  tickets, among whose values no value occurs, \<^verbatim>\<open>get_facets\<close> keeps every pair.
\<close>

theorem get_facets_empty_final_result_counterexample:
  "map_sum (\<lambda>e. e) (\<lambda>result. result ''status'')
     (get_facets map_of (Some example_facets) (Some []))
   = Inr (Some [(SolrStr ''closed'', SolrInt 2), (SolrStr ''open'', SolrInt 5)])"
  by (simp add: get_facets_def example_facets_def pair_up_def xrange2_def field_name_def
        rsplit1_def startswith_def)

text \<open>
  C6, amended: for \<^verbatim>\<open>None\<close> as the search result, \<^verbatim>\<open>get_facets\<close> returns the empty
  dictionary. For a search result whose flat facet lists have even length (value, count,
  value, count, \<dots>), and whose facet names stay different from each other when cut at
  their last \<^verbatim>\<open>_s\<close>, it returns a dictionary whose keys are the facet names so cut, which
  for a name that ends in \<^verbatim>\<open>_s\<close> is the name without this suffix; the value under the
  key of a facet is the list of the pairs of consecutive elements of its flat list, all
  of them when \<^verbatim>\<open>final_result\<close> is \<^verbatim>\<open>None\<close> or empty, and otherwise those whose first
  component is the value that the indexed data of some ticket in \<^verbatim>\<open>final_result\<close> has
  under the facet's name.
\<close>

theorem get_facets_result:
  "get_facets index None final_result = Inr Map.empty
   \<and> (distinct (map (\<lambda>(n, vs). field_name n) facets) \<and>
      (\<forall>(n, vs) \<in> set facets. even (length vs)) \<longrightarrow>
        (\<exists>result. get_facets index (Some facets) final_result = Inr result
           \<and> dom result = (\<lambda>(n, vs). field_name n) ` set facets
           \<and> (\<forall>(n, vs) \<in> set facets.
                 result (field_name n) = Some (kept_pairs index final_result n vs))
           \<and> (\<forall>base vs. (base @ ''_s'', vs) \<in> set facets \<longrightarrow>
                 result base = Some (kept_pairs index final_result (base @ ''_s'') vs))))
   \<and> field_name (base @ ''_s'') = base"
proof (intro conjI impI)
  show "get_facets index None final_result = Inr Map.empty"
    by (simp add: get_facets_def)
next
  assume a: "distinct (map (\<lambda>(n, vs). field_name n) facets) \<and>
             (\<forall>(n, vs) \<in> set facets. even (length vs))"
  then obtain result
    where r: "facets_loop index final_result facets Map.empty = Inr result"
      and r1: "\<forall>(n, vs) \<in> set facets.
                 result (field_name n) = Some (kept_pairs index final_result n vs)"
      and r2: "\<forall>k. k \<notin> (\<lambda>(n, vs). field_name n) ` set facets \<longrightarrow> result k = Map.empty k"
    using facets_loop_result [of facets index final_result Map.empty] by blast
  have "dom result = (\<lambda>(n, vs). field_name n) ` set facets"
  proof
    show "dom result \<subseteq> (\<lambda>(n, vs). field_name n) ` set facets"
    proof
      fix k
      assume "k \<in> dom result"
      then have "result k \<noteq> None" by auto
      show "k \<in> (\<lambda>(n, vs). field_name n) ` set facets"
      proof (rule ccontr)
        assume "k \<notin> (\<lambda>(n, vs). field_name n) ` set facets"
        with r2 have "result k = None" by simp
        with \<open>result k \<noteq> None\<close> show False by simp
      qed
    qed
    show "(\<lambda>(n, vs). field_name n) ` set facets \<subseteq> dom result"
      using r1 by (auto simp: dom_def)
  qed
  moreover have "\<forall>base vs. (base @ ''_s'', vs) \<in> set facets \<longrightarrow>
                 result base = Some (kept_pairs index final_result (base @ ''_s'') vs)"
  proof (intro allI impI)
    fix base vs
    assume "(base @ ''_s'', vs) \<in> set facets"
    with r1 have "result (field_name (base @ ''_s''))
                    = Some (kept_pairs index final_result (base @ ''_s'') vs)"
      by blast
    then show "result base = Some (kept_pairs index final_result (base @ ''_s'') vs)"
      by (simp only: field_name_suffix)
  qed
  ultimately show "\<exists>result. get_facets index (Some facets) final_result = Inr result
           \<and> dom result = (\<lambda>(n, vs). field_name n) ` set facets
           \<and> (\<forall>(n, vs) \<in> set facets.
                 result (field_name n) = Some (kept_pairs index final_result n vs))
           \<and> (\<forall>base vs. (base @ ''_s'', vs) \<in> set facets \<longrightarrow>
                 result base = Some (kept_pairs index final_result (base @ ''_s'') vs))"
    using r r1 by (simp add: get_facets_def)
next
  show "field_name (base @ ''_s'') = base" by (rule field_name_suffix)
qed

text \<open>
  C6 at the example: filtered by two tickets, not filtered, and without a search result.
\<close>

theorem get_facets_result_witness:
  "(\<exists>result. get_facets map_of (Some example_facets) (Some example_tickets) = Inr result
      \<and> dom result = {''status'', ''_milestone''}
      \<and> result ''status'' = Some [(SolrStr ''open'', SolrInt 5)]
      \<and> result ''_milestone'' = Some [(SolrStr ''1.0'', SolrInt 7)])
   \<and> (\<exists>result. get_facets map_of (Some example_facets) (None :: (string \<times> solr_value) list list option)
                  = Inr result
      \<and> result ''status'' = Some [(SolrStr ''closed'', SolrInt 2), (SolrStr ''open'', SolrInt 5)])
   \<and> get_facets map_of None (Some example_tickets) = Inr Map.empty"
proof -
  have names: "field_name ''status_s'' = ''status''" "field_name ''_milestone_s'' = ''_milestone''"
    using field_name_suffix [of "''status''"] field_name_suffix [of "''_milestone''"] by simp_all
  have d: "distinct (map (\<lambda>(n, vs). field_name n) example_facets)
           \<and> (\<forall>(n, vs) \<in> set example_facets. even (length vs))"
    by (simp add: example_facets_def names)
  have A: "\<exists>result. get_facets map_of (Some example_facets) (Some example_tickets) = Inr result
      \<and> dom result = {''status'', ''_milestone''}
      \<and> result ''status'' = Some [(SolrStr ''open'', SolrInt 5)]
      \<and> result ''_milestone'' = Some [(SolrStr ''1.0'', SolrInt 7)]"
    using get_facets_result [of map_of "Some example_tickets" example_facets "''status''"] d
    by (simp add: example_facets_def names kept_pairs_def example_tickets_def) blast
  have B: "\<exists>result. get_facets map_of (Some example_facets) (None :: (string \<times> solr_value) list list option)
                  = Inr result
      \<and> result ''status'' = Some [(SolrStr ''closed'', SolrInt 2), (SolrStr ''open'', SolrInt 5)]"
    using get_facets_result [of map_of None example_facets "''status''"] d
    by (simp add: example_facets_def names kept_pairs_def) blast
  have C: "get_facets map_of None (Some example_tickets) = Inr Map.empty"
    using get_facets_result [of map_of "Some example_tickets" "[]" "''status''"] by simp
  show ?thesis by (rule conjI [OF A conjI [OF B C]])
qed

subsection \<open>\<^verbatim>\<open>DefaultAdminController.update\<close>: the access control list is replaced\<close>

lemma object_ids_Inr:
  "object_ids env ss = Inr rs \<Longrightarrow> list_all2 (\<lambda>s r. ObjectId env s = Some r) ss rs"
  by (induction ss arbitrary: rs) (auto split: option.splits sum.splits)

lemma object_ids_known: "\<forall>s \<in> set ss. known_role env s \<Longrightarrow> \<exists>rs. object_ids env ss = Inr rs"
  by (induction ss) (auto simp: known_role_def split: option.splits)

lemma role_names_known: "\<forall>s \<in> set ss. known_role env s \<Longrightarrow> \<exists>names. role_names env ss = Inr names"
  by (induction ss) (auto simp: known_role_def split: option.splits)

lemma log_change_acl:
  "log_change env perm group_ids new_group_ids del_group_ids config = Inr config1 \<Longrightarrow>
   acl config1 = acl config"
  by (cases "new_group_ids \<noteq> [] \<or> del_group_ids \<noteq> []")
     (auto simp: log_change_def split: sum.splits)

lemma log_change_known:
  assumes "\<forall>s \<in> set (group_ids @ del_group_ids). known_role env s"
    and "\<forall>s \<in> set (group_ids @ new_group_ids). known_role env s"
  shows "\<exists>config1. log_change env perm group_ids new_group_ids del_group_ids config = Inr config1"
proof -
  from assms(1) obtain old_names where 1: "role_names env (group_ids @ del_group_ids) = Inr old_names"
    using role_names_known by blast
  from assms(2) obtain new_names where 2: "role_names env (group_ids @ new_group_ids) = Inr new_names"
    using role_names_known by blast
  from 1 2 show ?thesis by (simp add: log_change_def)
qed

lemma update_card_Inr:
  assumes "update_card env old_acl args config = Inr config'"
  shows "\<exists>entries. card_entries env args entries \<and> acl config' = acl config @ entries"
proof (cases "card_id args")
  case None
  with assms show ?thesis by (simp add: update_card_def)
next
  case (Some perm)
  let ?group = "id_list (card_value args)"
  let ?new = "id_list (card_new args)"
  let ?del = "deleted_group_ids env old_acl perm ?group"
  show ?thesis
  proof (cases "log_change env perm ?group ?new ?del config")
    case (Inl failure)
    with assms Some show ?thesis by (simp add: update_card_def Let_def)
  next
    case (Inr config1)
    show ?thesis
    proof (cases "object_ids env (?group @ ?new)")
      case (Inl e)
      with assms Some Inr show ?thesis by (simp add: update_card_def Let_def)
    next
      case ids: (Inr role_ids)
      with assms Some Inr
      have c': "config' = config1\<lparr>acl := acl config1 @ map (\<lambda>r. ACE_allow r perm) role_ids\<rparr>"
        by (simp add: update_card_def Let_def)
      from object_ids_Inr [OF ids]
      have "list_all2 (allows env perm) (submitted_ids args) (map (\<lambda>r. ACE_allow r perm) role_ids)"
        by (simp add: list_all2_map2 allows_def ACE_allow_def submitted_ids_def)
      with Some have "card_entries env args (map (\<lambda>r. ACE_allow r perm) role_ids)"
        by (simp add: card_entries_def)
      moreover have "acl config' = acl config @ map (\<lambda>r. ACE_allow r perm) role_ids"
        using c' log_change_acl [OF Inr] by simp
      ultimately show ?thesis by blast
    qed
  qed
qed

lemma update_card_known:
  assumes "card_id args \<noteq> None"
    and "\<forall>s \<in> set (submitted_ids args). known_role env s"
    and "\<forall>a \<in> set old_acl. known_role env (str_of_oid env (role_id a))"
  shows "\<exists>config'. update_card env old_acl args config = Inr config'"
proof -
  from assms(1) obtain perm where perm: "card_id args = Some perm" by auto
  let ?group = "id_list (card_value args)"
  let ?new = "id_list (card_new args)"
  let ?del = "deleted_group_ids env old_acl perm ?group"
  have sub: "\<forall>s \<in> set (?group @ ?new). known_role env s"
    using assms(2) by (simp add: submitted_ids_def)
  have "\<forall>s \<in> set ?del. known_role env s"
    using assms(3) by (auto simp: deleted_group_ids_def)
  with sub have "\<forall>s \<in> set (?group @ ?del). known_role env s" by auto
  with sub obtain config1 where 1: "log_change env perm ?group ?new ?del config = Inr config1"
    using log_change_known [of ?group ?del env ?new perm config] by blast
  from sub obtain role_ids where 3: "object_ids env (?group @ ?new) = Inr role_ids"
    using object_ids_known by blast
  from perm 1 3 show ?thesis
    by (simp add: update_card_def Let_def)
qed

lemma update_loop_None:
  "update_loop env old_acl cards config = (None, config') \<Longrightarrow>
   \<exists>ess. list_all2 (card_entries env) cards ess \<and> acl config' = acl config @ concat ess"
proof (induction cards arbitrary: config)
  case Nil
  then show ?case by simp
next
  case (Cons args cards)
  from Cons.prems obtain config1
    where 1: "update_card env old_acl args config = Inr config1"
      and 2: "update_loop env old_acl cards config1 = (None, config')"
    by (auto split: sum.splits prod.splits)
  from update_card_Inr [OF 1] obtain entries
    where e: "card_entries env args entries" "acl config1 = acl config @ entries" by blast
  from Cons.IH [OF 2] obtain ess
    where es: "list_all2 (card_entries env) cards ess" "acl config' = acl config1 @ concat ess"
    by blast
  from e es have "list_all2 (card_entries env) (args # cards) (entries # ess)
      \<and> acl config' = acl config @ concat (entries # ess)"
    by simp
  then show ?case by blast
qed

lemma update_loop_known:
  assumes "\<forall>args \<in> set cards. card_id args \<noteq> None \<and> (\<forall>s \<in> set (submitted_ids args). known_role env s)"
    and "\<forall>a \<in> set old_acl. known_role env (str_of_oid env (role_id a))"
  shows "\<exists>config'. update_loop env old_acl cards config = (None, config')"
  using assms(1)
proof (induction cards arbitrary: config)
  case Nil
  then show ?case by simp
next
  case (Cons args cards)
  then obtain config1 where "update_card env old_acl args config = Inr config1"
    using update_card_known [of args env old_acl config] assms(2) by auto
  with Cons show ?case by simp
qed

lemma list_all2_in_right:
  "list_all2 P xs ys \<Longrightarrow> y \<in> set ys \<Longrightarrow> \<exists>x \<in> set xs. P x y"
  by (induction xs ys rule: list_all2_induct) auto

lemma list_all2_in_concat:
  "list_all2 P xs yss \<Longrightarrow> y \<in> set (concat yss) \<Longrightarrow> \<exists>x \<in> set xs. \<exists>ys. P x ys \<and> y \<in> set ys"
  by (induction xs yss rule: list_all2_induct) auto

text \<open>
  C7: when \<^verbatim>\<open>update\<close> gets as far as its redirect, the access control list of the
  application consists exactly of the entries that the cards ask for: card after card,
  in the order of \<^verbatim>\<open>card\<close>, one \<^verbatim>\<open>ALLOW\<close> entry for the card's permission and each role
  identifier of the card, the kept ones (\<^verbatim>\<open>'value'\<close>) before the added ones (\<^verbatim>\<open>'new'\<close>).
  So an entry of the old list is in the new one only if it is an \<^verbatim>\<open>ALLOW\<close> entry whose
  role identifier some card has submitted for its permission. And \<^verbatim>\<open>update\<close> does get as
  far as its redirect when every card has its \<^verbatim>\<open>'id'\<close>, and every identifier that a card
  submits, and every role identifier of the old list, is the identifier of a role that
  exists (the names of these roles are looked up for the audit log).
\<close>

theorem update_replaces_acl:
  "(update env config (Some cards) = (None, config') \<longrightarrow>
      (\<exists>ess. list_all2 (card_entries env) cards ess \<and> acl config' = concat ess)
    \<and> (\<forall>a \<in> set (acl config). a \<in> set (acl config') \<longrightarrow>
          access a = ALLOW \<and>
          (\<exists>args \<in> set cards. card_id args = Some (permission a) \<and>
             (\<exists>s \<in> set (submitted_ids args). ObjectId env s = Some (role_id a)))))
   \<and> ((\<forall>args \<in> set cards. card_id args \<noteq> None \<and>
          (\<forall>s \<in> set (submitted_ids args). known_role env s)) \<and>
      (\<forall>a \<in> set (acl config). known_role env (str_of_oid env (role_id a))) \<longrightarrow>
        (\<exists>config'. update env config (Some cards) = (None, config')))"
proof -
  have loop: "update env config (Some cards) = update_loop env (acl config) cards (config\<lparr>acl := []\<rparr>)"
    by (simp add: update_def Let_def)
  have A: "\<exists>ess. list_all2 (card_entries env) cards ess \<and> acl config' = concat ess"
    if "update env config (Some cards) = (None, config')"
  proof -
    from that loop
    have "update_loop env (acl config) cards (config\<lparr>acl := []\<rparr>) = (None, config')" by simp
    from update_loop_None [OF this] show ?thesis by simp
  qed
  have B: "access a = ALLOW \<and>
          (\<exists>args \<in> set cards. card_id args = Some (permission a) \<and>
             (\<exists>s \<in> set (submitted_ids args). ObjectId env s = Some (role_id a)))"
    if u: "update env config (Some cards) = (None, config')" and a: "a \<in> set (acl config')" for a
  proof -
    from A [OF u] obtain ess
      where ess: "list_all2 (card_entries env) cards ess" and c: "acl config' = concat ess"
      by blast
    from a c have "a \<in> set (concat ess)" by simp
    from list_all2_in_concat [OF ess this] obtain args entries
      where args: "args \<in> set cards" and ce: "card_entries env args entries"
        and ae: "a \<in> set entries"
      by blast
    from ce obtain perm where perm: "card_id args = Some perm"
      and l: "list_all2 (allows env perm) (submitted_ids args) entries"
      by (cases "card_id args") (simp_all add: card_entries_def)
    from list_all2_in_right [OF l ae] obtain s
      where s: "s \<in> set (submitted_ids args)" and al: "allows env perm s a"
      by blast
    from al have "access a = ALLOW" "permission a = perm" "ObjectId env s = Some (role_id a)"
      by (simp_all add: allows_def)
    with args perm s show ?thesis by blast
  qed
  have C: "\<exists>config'. update env config (Some cards) = (None, config')"
    if "(\<forall>args \<in> set cards. card_id args \<noteq> None \<and>
          (\<forall>s \<in> set (submitted_ids args). known_role env s)) \<and>
      (\<forall>a \<in> set (acl config). known_role env (str_of_oid env (role_id a)))"
  proof -
    from that have 1: "\<forall>args \<in> set cards. card_id args \<noteq> None \<and>
          (\<forall>s \<in> set (submitted_ids args). known_role env s)"
      and 2: "\<forall>a \<in> set (acl config). known_role env (str_of_oid env (role_id a))"
      by blast+
    from update_loop_known [OF 1 2] loop show ?thesis by simp
  qed
  from A B C show ?thesis by blast
qed

text \<open>
  C7 at the example: two roles may read and one may write, in the order of the cards;
  the old entries for role 1 on \<^verbatim>\<open>read\<close> and for role 3 on \<^verbatim>\<open>write\<close> are gone.
\<close>

theorem update_replaces_acl_witness:
  "(\<exists>config'. update example_admin_env example_config (Some example_cards) = (None, config')
      \<and> acl config' = [ACE_allow 2 ''read'', ACE_allow 3 ''read'', ACE_allow 1 ''write'']
      \<and> (\<exists>ess. list_all2 (card_entries example_admin_env) example_cards ess
               \<and> acl config' = concat ess))"
proof -
  have h: "(\<forall>args \<in> set example_cards. card_id args \<noteq> None \<and>
          (\<forall>s \<in> set (submitted_ids args). known_role example_admin_env s)) \<and>
      (\<forall>a \<in> set (acl example_config).
          known_role example_admin_env (str_of_oid example_admin_env (role_id a)))"
    by (simp add: example_cards_def example_config_def submitted_ids_def known_role_def
          example_admin_env_def ACE_allow_def)
  note T = update_replaces_acl [of example_admin_env example_config example_cards]
  from T h obtain config'
    where u: "update example_admin_env example_config (Some example_cards) = (None, config')"
    by blast
  from T [of config'] u
  have ess: "\<exists>ess. list_all2 (card_entries example_admin_env) example_cards ess
               \<and> acl config' = concat ess"
    by blast
  have "acl (snd (update example_admin_env example_config (Some example_cards)))
          = [ACE_allow 2 ''read'', ACE_allow 3 ''read'', ACE_allow 1 ''write'']"
    by (simp add: update_def update_card_def log_change_def deleted_group_ids_def
          example_admin_env_def example_config_def example_cards_def ACE_allow_def Let_def)
  with u have "acl config' = [ACE_allow 2 ''read'', ACE_allow 3 ''read'', ACE_allow 1 ''write'']"
    by simp
  with u ess show ?thesis by blast
qed

subsection \<open>\<^verbatim>\<open>SitemapEntry.extend\<close>: a second call with the same entries\<close>

text \<open>
  More calls and iterations than needed do not change the result: a run that returns with
  the bound \<open>n\<close> returns the same store with every larger bound.
\<close>

lemma extend_more_fuel:
  "(extend n s c L = Some s' \<longrightarrow> extend (n + k) s c L = Some s') \<and>
   (extend_loop n s c L index i = Some s' \<longrightarrow> extend_loop (n + k) s c L index i = Some s')"
proof (induction n arbitrary: s c L index i s')
  case 0
  then show ?case by simp
next
  case (Suc n)
  have 1: "extend (Suc n + k) s c L = Some s'" if "extend (Suc n) s c L = Some s'"
  proof -
    from that have "extend_loop n s c L (child_index s c) 0 = Some s'" by simp
    then have "extend_loop (n + k) s c L (child_index s c) 0 = Some s'" using Suc by blast
    then show ?thesis by simp
  qed
  have 2: "extend_loop (Suc n + k) s c L index i = Some s'"
    if a: "extend_loop (Suc n) s c L index i = Some s'"
  proof (cases "i < length (entries_of s L)")
    case False
    with a show ?thesis by simp
  next
    case True
    let ?e = "entries_of s L ! i"
    let ?lbl = "label (s ?e)"
    let ?app = "extend_loop n (append_child s c ?e) c L (index(?lbl \<mapsto> ?e)) (i + 1)"
    have app: "?app = Some s' \<Longrightarrow>
        extend_loop (n + k) (append_child s c ?e) c L (index(?lbl \<mapsto> ?e)) (i + 1) = Some s'"
      using Suc by blast
    show ?thesis
    proof (cases "index ?lbl")
      case None
      with a True app show ?thesis by (simp add: Let_def)
    next
      case (Some m)
      show ?thesis
      proof (cases "url (s m) = url (s ?e)")
        case False
        with a True Some app show ?thesis by (simp add: Let_def)
      next
        case u: True
        from a True Some u obtain s1 where s1: "extend n s m (ChildrenOf ?e) = Some s1"
          and l: "extend_loop n s1 c L index (i + 1) = Some s'"
          by (auto simp: Let_def split: option.splits)
        from s1 have "extend (n + k) s m (ChildrenOf ?e) = Some s1" using Suc by blast
        moreover from l have "extend_loop (n + k) s1 c L index (i + 1) = Some s'" using Suc by blast
        ultimately show ?thesis using True Some u by (simp add: Let_def)
      qed
    qed
  qed
  from 1 2 show ?case by blast
qed

lemma extend_fuel_le: "extend n s c L = Some s' \<Longrightarrow> n \<le> m \<Longrightarrow> extend m s c L = Some s'"
  using extend_more_fuel [of n s c L s' "m - n"] by simp

lemma extend_loop_fuel_le:
  "extend_loop n s c L index i = Some s' \<Longrightarrow> n \<le> m \<Longrightarrow> extend_loop m s c L index i = Some s'"
  using extend_more_fuel [of n s c L s' "m - n" index i] by simp

text \<open>
  The dictionary \<^verbatim>\<open>child_index\<close>: what it holds under a label is a child with that label,
  and when the labels of the children are pairwise distinct it holds every child under its
  label.
\<close>

lemma fold_index_other:
  "lbl \<notin> (\<lambda>ch. label (s ch)) ` set xs \<Longrightarrow>
   fold (\<lambda>ch index. index(label (s ch) \<mapsto> ch)) xs m lbl = m lbl"
  by (induction xs arbitrary: m) auto

lemma fold_index_sound:
  "fold (\<lambda>ch index. index(label (s ch) \<mapsto> ch)) xs m lbl = Some a \<Longrightarrow>
   (a \<in> set xs \<and> label (s a) = lbl) \<or> m lbl = Some a"
proof (induction xs arbitrary: m)
  case Nil
  then show ?case by simp
next
  case (Cons x xs)
  from Cons.prems
  have "fold (\<lambda>ch index. index(label (s ch) \<mapsto> ch)) xs (m(label (s x) \<mapsto> x)) lbl = Some a"
    by (simp del: fun_upd_apply)
  from Cons.IH [OF this]
  have "(a \<in> set xs \<and> label (s a) = lbl) \<or> (m(label (s x) \<mapsto> x)) lbl = Some a" .
  then show ?case by (auto split: if_splits)
qed

lemma child_index_sound:
  "child_index s c lbl = Some a \<Longrightarrow> a \<in> set (children (s c)) \<and> label (s a) = lbl"
  using fold_index_sound [of s "children (s c)" Map.empty lbl a] by (simp add: child_index_def)

lemma fold_index_distinct:
  "distinct (map (\<lambda>d. label (s d)) xs) \<Longrightarrow> d \<in> set xs \<Longrightarrow>
   fold (\<lambda>ch index. index(label (s ch) \<mapsto> ch)) xs m (label (s d)) = Some d"
proof (induction xs arbitrary: m)
  case Nil
  then show ?case by simp
next
  case (Cons x xs)
  show ?case
  proof (cases "d = x")
    case True
    with Cons.prems have "label (s d) \<notin> (\<lambda>ch. label (s ch)) ` set xs" by auto
    then have "fold (\<lambda>ch index. index(label (s ch) \<mapsto> ch)) xs (m(label (s d) \<mapsto> d)) (label (s d))
                 = (m(label (s d) \<mapsto> d)) (label (s d))"
      by (rule fold_index_other)
    with True show ?thesis by (simp del: fun_upd_apply) simp
  next
    case False
    with Cons show ?thesis by simp
  qed
qed

lemma child_index_distinct:
  "distinct (map (\<lambda>d. label (s d)) (children (s c))) \<Longrightarrow> d \<in> set (children (s c)) \<Longrightarrow>
   child_index s c (label (s d)) = Some d"
  by (simp add: child_index_def fold_index_distinct)

text \<open>
  A call that finds every incoming entry covered by a child changes nothing, as long as
  the labels are pairwise distinct at each level below the receiver: an entry that was
  appended is found under its label and is extended with its own children, which cover
  themselves; an entry that was merged finds the child it was merged into.
\<close>

lemma covered_label: "covered M s d e \<Longrightarrow> label (s d) = label (s e) \<and> url (s d) = url (s e)"
  by (induction rule: covered.induct) auto

lemma covered_children:
  assumes "covered M s d e" and "x \<in> set (children (s e))"
  shows "\<exists>d' \<in> set (children (s d)). covered M s d' x"
  using assms
proof (cases rule: covered.cases)
  case same
  with assms(2) show ?thesis by (auto intro: covered.same)
next
  case merged
  with assms(2) show ?thesis by blast
qed

lemma extend_covered_unchanged:
  assumes "distinct_tree s c"
    and "\<forall>e \<in> set (entries_of s L). \<exists>d \<in> set (children (s c)). covered M s d e"
  shows "\<exists>n. extend n s c L = Some s"
  using assms
proof (induction arbitrary: L rule: distinct_tree.induct)
  case (1 s c)
  let ?es = "entries_of s L"
  have loop: "\<exists>n. extend_loop n s c L (child_index s c) i = Some s" if "k = length ?es - i" for k i
    using that
  proof (induction k arbitrary: i)
    case 0
    then have "extend_loop (Suc 0) s c L (child_index s c) i = Some s" by simp
    then show ?case by blast
  next
    case (Suc k)
    then have i: "i < length ?es" by simp
    let ?e = "?es ! i"
    from i have "?e \<in> set ?es" by simp
    with "1.prems" obtain d where d: "d \<in> set (children (s c))" and cov: "covered M s d ?e"
      by blast
    from covered_label [OF cov] have lab: "label (s d) = label (s ?e)" "url (s d) = url (s ?e)"
      by simp_all
    from "1.hyps"(1) d have idx: "child_index s c (label (s ?e)) = Some d"
      using child_index_distinct [of s c d] lab by simp
    have "\<forall>x \<in> set (entries_of s (ChildrenOf ?e)). \<exists>d' \<in> set (children (s d)). covered M s d' x"
      using covered_children [OF cov] by simp
    from "1.IH" [OF d this] obtain n1 where n1: "extend n1 s d (ChildrenOf ?e) = Some s" by blast
    from Suc.prems have "k = length ?es - (i + 1)" by simp
    from Suc.IH [OF this] obtain n2 where n2: "extend_loop n2 s c L (child_index s c) (i + 1) = Some s"
      by blast
    let ?n = "max n1 n2"
    from n1 have "extend ?n s d (ChildrenOf ?e) = Some s" by (rule extend_fuel_le) simp
    moreover from n2 have "extend_loop ?n s c L (child_index s c) (i + 1) = Some s"
      by (rule extend_loop_fuel_le) simp
    ultimately have "extend_loop (Suc ?n) s c L (child_index s c) i = Some s"
      using i idx lab by (simp add: Let_def)
    then show ?case by blast
  qed
  from loop [of _ 0, OF refl] obtain n where "extend_loop n s c L (child_index s c) 0 = Some s"
    by blast
  then have "extend (Suc n) s c L = Some s" by simp
  then show ?case by blast
qed

text \<open>
  The first call, for incoming entries that form a forest \<open>fs\<close> of which no entry lies in
  \<open>A\<close>, a set of entries that holds the receiver and is closed under children. The loop
  returns; it changes only entries of \<open>A\<close> and entries it has appended (\<open>B\<close>), so that the
  entries it has merged (\<open>M\<close>) and the part of the forest it has not yet looked at are as
  they were; and every incoming entry is covered by a child of the receiver.
\<close>

lemma grows_refl: "grows s s"
  by (simp add: grows_def)

lemma grows_trans: "grows s s1 \<Longrightarrow> grows s1 s2 \<Longrightarrow> grows s s2"
  by (fastforce simp: grows_def)

lemma grows_append_child: "grows s (append_child s c e)"
  by (auto simp: grows_def append_child_def)

lemma append_child_other: "x \<noteq> c \<Longrightarrow> append_child s c e x = s x"
  by (simp add: append_child_def)

lemma children_append_child: "children (append_child s c e c) = children (s c) @ [e]"
  by (simp add: append_child_def)

lemma covered_stable:
  assumes "covered M s d e" and "grows s s'" and "\<forall>x \<in> M. s' x = s x" and "M \<subseteq> M'"
  shows "covered M' s' d e"
  using assms(1)
proof (induction rule: covered.induct)
  case (same e)
  show ?case by (rule covered.same)
next
  case (merged d e)
  show ?case
  proof (rule covered.merged)
    show "label (s' d) = label (s' e)" "url (s' d) = url (s' e)"
      using merged.hyps(1,2) assms(2) by (simp_all add: grows_def)
    show "e \<in> M'" using merged.hyps(3) assms(4) by blast
    fix x
    assume "x \<in> set (children (s' e))"
    with merged.hyps(3) assms(3) have "x \<in> set (children (s e))" by simp
    from merged.IH [OF this] obtain d' where "d' \<in> set (children (s d))" "covered M' s' d' x"
      by blast
    moreover from assms(2) have "set (children (s d)) \<subseteq> set (children (s' d))"
      by (simp add: grows_def)
    ultimately show "\<exists>d' \<in> set (children (s' d)). covered M' s' d' x" by blast
  qed
qed

lemma root_in_addresses: "root t \<in> set (addresses t)"
  by (cases t) simp

lemma realises_frame:
  "realises s t \<Longrightarrow> (\<forall>x \<in> set (addresses t). s' x = s x) \<Longrightarrow> realises s' t"
proof (induction t)
  case (Tree a ts)
  then show ?case by fastforce
qed

lemma realises_closed: "realises s t \<Longrightarrow> closed s (set (addresses t))"
proof (induction t)
  case (Tree a ts)
  have "set (children (s x)) \<subseteq> set (addresses (Tree a ts))" if "x \<in> set (addresses (Tree a ts))" for x
  proof (cases "x = a")
    case True
    with Tree.prems have "children (s x) = map root ts" by simp
    then show ?thesis using root_in_addresses by fastforce
  next
    case False
    with that obtain t where t: "t \<in> set ts" "x \<in> set (addresses t)" by auto
    with Tree have "closed s (set (addresses t))" by simp
    with t show ?thesis by (fastforce simp: closed_def)
  qed
  then show ?case by (simp add: closed_def)
qed

text \<open>
  One iteration of the loop. An incoming entry whose label is in the dictionary, under a
  child with the same url, is merged: that child is extended with the children of the
  entry. Any other entry is appended and entered in the dictionary.
\<close>

lemma extend_loop_step_merge:
  assumes "length pre < length (entries_of s L)" and "entries_of s L ! length pre = e"
    and "index (label (s e)) = Some m" and "url (s m) = url (s e)"
    and "extend n1 s m (ChildrenOf e) = Some s1"
    and "extend_loop n2 s1 c L index (Suc (length pre)) = Some s2"
  shows "extend_loop (Suc (max n1 n2)) s c L index (length pre) = Some s2"
proof -
  have "extend (max n1 n2) s m (ChildrenOf e) = Some s1"
    using assms(5) by (rule extend_fuel_le) simp
  moreover have "extend_loop (max n1 n2) s1 c L index (Suc (length pre)) = Some s2"
    using assms(6) by (rule extend_loop_fuel_le) simp
  ultimately show ?thesis using assms(1-4) by simp
qed

lemma extend_loop_step_append:
  assumes "length pre < length (entries_of s L)" and "entries_of s L ! length pre = e"
    and "\<not> (\<exists>m. index (label (s e)) = Some m \<and> url (s m) = url (s e))"
    and "extend_loop n2 (append_child s c e) c L (index(label (s e) \<mapsto> e)) (Suc (length pre)) = Some s2"
  shows "extend_loop (Suc n2) s c L index (length pre) = Some s2"
  using assms by (cases "index (label (s e))") (simp_all del: fun_upd_apply)

lemma extend_loop_covers:
  assumes "\<forall>f \<in> set fs. realises s f"
    and "distinct (concat (map addresses fs))"
    and "closed s A" and "c \<in> A"
    and "A \<inter> set (concat (map addresses fs)) = {}"
    and "entries_of s L = pre @ map root fs"
    and "\<forall>l. L = ChildrenOf l \<longrightarrow> l \<notin> A \<and> l \<notin> set (concat (map addresses fs))"
    and "\<forall>lbl a. index lbl = Some a \<longrightarrow> a \<in> set (children (s c)) \<and> label (s a) = lbl"
  shows "\<exists>n s' B M. extend_loop n s c L index (length pre) = Some s' \<and>
           B \<subseteq> set (concat (map addresses fs)) \<and> M \<subseteq> set (concat (map addresses fs)) \<and>
           B \<inter> M = {} \<and> closed s' (A \<union> B) \<and> (\<forall>x. x \<notin> A \<union> B \<longrightarrow> s' x = s x) \<and> grows s s' \<and>
           (\<forall>f \<in> set fs. \<exists>d \<in> set (children (s' c)). covered M s' d (root f))"
  using assms
proof (induction "size_list size fs" arbitrary: fs s A c L index pre rule: less_induct)
  case less
  show ?case
  proof (cases fs)
    case Nil
    with less.prems(6) have "extend_loop (Suc 0) s c L index (length pre) = Some s" by simp
    moreover have "closed s (A \<union> {})" using less.prems(3) by simp
    moreover have "grows s s" by (rule grows_refl)
    ultimately have "extend_loop (Suc 0) s c L index (length pre) = Some s \<and>
           {} \<subseteq> set (concat (map addresses fs)) \<and> {} \<subseteq> set (concat (map addresses fs)) \<and>
           {} \<inter> {} = ({} :: nat set) \<and> closed s (A \<union> {}) \<and> (\<forall>x. x \<notin> A \<union> {} \<longrightarrow> s x = s x) \<and> grows s s \<and>
           (\<forall>f \<in> set fs. \<exists>d \<in> set (children (s c)). covered {} s d (root f))"
      using Nil by simp
    then show ?thesis by blast
  next
    case (Cons f rest)
    obtain e ts where f: "f = Tree e ts" by (cases f)
    define Ft where "Ft = set (concat (map addresses ts))"
    define Fr where "Fr = set (concat (map addresses rest))"
    have F: "set (concat (map addresses fs)) = insert e (Ft \<union> Fr)"
      by (simp add: Cons f Ft_def Fr_def)
    have dts: "distinct (concat (map addresses ts))"
      and drest: "distinct (concat (map addresses rest))"
      and disj: "e \<notin> Ft" "e \<notin> Fr" "Ft \<inter> Fr = {}"
      using less.prems(2) by (auto simp: Cons f Ft_def Fr_def)
    have A: "e \<notin> A" "A \<inter> Ft = {}" "A \<inter> Fr = {}"
      using less.prems(5) unfolding F by auto
    have rts: "\<forall>t \<in> set ts. realises s t" and rrest: "\<forall>f \<in> set rest. realises s f"
      and ce: "children (s e) = map root ts"
      using less.prems(1) by (simp_all add: Cons f)
    have es: "entries_of s L = pre @ e # map root rest"
      using less.prems(6) by (simp add: Cons f)
    then have i: "length pre < length (entries_of s L)" "entries_of s L ! length pre = e"
      by simp_all
    have owner: "\<forall>l. L = ChildrenOf l \<longrightarrow> l \<notin> A \<and> l \<noteq> e \<and> l \<notin> Ft \<and> l \<notin> Fr"
      using less.prems(7) unfolding F by auto
    have addr_rest: "set (addresses g) \<subseteq> Fr" if "g \<in> set rest" for g
      using that by (auto simp: Fr_def)
    have rest_step: "\<exists>n s' B M. extend_loop n s1 c L index1 (Suc (length pre)) = Some s' \<and>
           B \<subseteq> Fr \<and> M \<subseteq> Fr \<and> B \<inter> M = {} \<and> closed s' (A1 \<union> B) \<and>
           (\<forall>x. x \<notin> A1 \<union> B \<longrightarrow> s' x = s1 x) \<and> grows s1 s' \<and>
           (\<forall>f \<in> set rest. \<exists>d \<in> set (children (s' c)). covered M s' d (root f))"
      if s1: "closed s1 A1" "A \<subseteq> A1" "A1 \<inter> Fr = {}" "\<forall>x. x \<notin> A1 \<longrightarrow> s1 x = s x"
        "\<forall>l. L = ChildrenOf l \<longrightarrow> l \<notin> A1"
        "\<forall>lbl a. index1 lbl = Some a \<longrightarrow> a \<in> set (children (s1 c)) \<and> label (s1 a) = lbl"
      for s1 A1 index1
    proof -
      have "\<exists>n s' B M. extend_loop n s1 c L index1 (length (pre @ [e])) = Some s' \<and>
           B \<subseteq> set (concat (map addresses rest)) \<and> M \<subseteq> set (concat (map addresses rest)) \<and>
           B \<inter> M = {} \<and> closed s' (A1 \<union> B) \<and>
           (\<forall>x. x \<notin> A1 \<union> B \<longrightarrow> s' x = s1 x) \<and> grows s1 s' \<and>
           (\<forall>f \<in> set rest. \<exists>d \<in> set (children (s' c)). covered M s' d (root f))"
      proof (rule less.hyps)
        show "size_list size rest < size_list size fs" by (simp add: Cons)
        show "\<forall>f \<in> set rest. realises s1 f"
        proof
          fix g assume g: "g \<in> set rest"
          with rrest have "realises s g" by blast
          moreover have "\<forall>x \<in> set (addresses g). s1 x = s x"
            using addr_rest [OF g] s1(3,4) by blast
          ultimately show "realises s1 g" by (rule realises_frame)
        qed
        show "distinct (concat (map addresses rest))" by fact
        show "closed s1 A1" by fact
        show "c \<in> A1" using less.prems(4) s1(2) by blast
        show "A1 \<inter> set (concat (map addresses rest)) = {}" using s1(3) by (simp add: Fr_def)
        show "entries_of s1 L = (pre @ [e]) @ map root rest"
        proof (cases L)
          case (Given xs)
          with es show ?thesis by simp
        next
          case (ChildrenOf l)
          with s1(4,5) have "s1 l = s l" by blast
          with es ChildrenOf show ?thesis by simp
        qed
        show "\<forall>l. L = ChildrenOf l \<longrightarrow> l \<notin> A1 \<and> l \<notin> set (concat (map addresses rest))"
          using s1(5) owner by (simp add: Fr_def)
        show "\<forall>lbl a. index1 lbl = Some a \<longrightarrow> a \<in> set (children (s1 c)) \<and> label (s1 a) = lbl"
          by fact
      qed
      then show ?thesis by (simp add: Fr_def)
    qed
    show ?thesis
    proof (cases "\<exists>m. index (label (s e)) = Some m \<and> url (s m) = url (s e)")
      case True
      then obtain m where m: "index (label (s e)) = Some m" "url (s m) = url (s e)" by blast
      from m(1) less.prems(8) have mc: "m \<in> set (children (s c))" "label (s m) = label (s e)"
        by blast+
      with less.prems(3,4) have mA: "m \<in> A" by (auto simp: closed_def)
      have "\<exists>n s' B M. extend_loop n s m (ChildrenOf e) (child_index s m) (length ([] :: nat list)) = Some s' \<and>
           B \<subseteq> set (concat (map addresses ts)) \<and> M \<subseteq> set (concat (map addresses ts)) \<and>
           B \<inter> M = {} \<and> closed s' (A \<union> B) \<and> (\<forall>x. x \<notin> A \<union> B \<longrightarrow> s' x = s x) \<and> grows s s' \<and>
           (\<forall>f \<in> set ts. \<exists>d \<in> set (children (s' m)). covered M s' d (root f))"
      proof (rule less.hyps)
        show "size_list size ts < size_list size fs" by (simp add: Cons f)
        show "\<forall>f \<in> set ts. realises s f" by fact
        show "distinct (concat (map addresses ts))" by fact
        show "closed s A" by fact
        show "m \<in> A" by fact
        show "A \<inter> set (concat (map addresses ts)) = {}" using A(2) by (simp add: Ft_def)
        show "entries_of s (ChildrenOf e) = [] @ map root ts" using ce by simp
        show "\<forall>l. ChildrenOf e = ChildrenOf l \<longrightarrow> l \<notin> A \<and> l \<notin> set (concat (map addresses ts))"
          using A(1) disj(1) by (simp add: Ft_def)
        show "\<forall>lbl a. child_index s m lbl = Some a \<longrightarrow> a \<in> set (children (s m)) \<and> label (s a) = lbl"
          using child_index_sound by blast
      qed
      then obtain n1 s1 B1 M1 where
        run1: "extend_loop n1 s m (ChildrenOf e) (child_index s m) 0 = Some s1"
        and B1: "B1 \<subseteq> Ft" and M1: "M1 \<subseteq> Ft" and BM1: "B1 \<inter> M1 = {}"
        and closed1: "closed s1 (A \<union> B1)"
        and frame1: "\<forall>x. x \<notin> A \<union> B1 \<longrightarrow> s1 x = s x"
        and grows1: "grows s s1"
        and cover1: "\<forall>t \<in> set ts. \<exists>d \<in> set (children (s1 m)). covered M1 s1 d (root t)"
        unfolding Ft_def by auto
      from run1 have call: "extend (Suc n1) s m (ChildrenOf e) = Some s1" by simp
      have "\<exists>n s' B M. extend_loop n s1 c L index (Suc (length pre)) = Some s' \<and>
           B \<subseteq> Fr \<and> M \<subseteq> Fr \<and> B \<inter> M = {} \<and> closed s' ((A \<union> B1) \<union> B) \<and>
           (\<forall>x. x \<notin> (A \<union> B1) \<union> B \<longrightarrow> s' x = s1 x) \<and> grows s1 s' \<and>
           (\<forall>f \<in> set rest. \<exists>d \<in> set (children (s' c)). covered M s' d (root f))"
      proof (rule rest_step)
        show "closed s1 (A \<union> B1)" by fact
        show "A \<subseteq> A \<union> B1" by simp
        show "(A \<union> B1) \<inter> Fr = {}" using A(3) B1 disj(3) by blast
        show "\<forall>x. x \<notin> A \<union> B1 \<longrightarrow> s1 x = s x" by fact
        show "\<forall>l. L = ChildrenOf l \<longrightarrow> l \<notin> A \<union> B1" using owner B1 by blast
        show "\<forall>lbl a. index lbl = Some a \<longrightarrow> a \<in> set (children (s1 c)) \<and> label (s1 a) = lbl"
        proof (intro allI impI)
          fix lbl a assume "index lbl = Some a"
          with less.prems(8) have "a \<in> set (children (s c))" "label (s a) = lbl" by blast+
          with grows1 show "a \<in> set (children (s1 c)) \<and> label (s1 a) = lbl"
            by (auto simp: grows_def)
        qed
      qed
      then obtain n2 s2 B2 M2 where
        run2: "extend_loop n2 s1 c L index (Suc (length pre)) = Some s2"
        and B2: "B2 \<subseteq> Fr" and M2: "M2 \<subseteq> Fr" and BM2: "B2 \<inter> M2 = {}"
        and closed2: "closed s2 ((A \<union> B1) \<union> B2)"
        and frame2: "\<forall>x. x \<notin> (A \<union> B1) \<union> B2 \<longrightarrow> s2 x = s1 x"
        and grows2: "grows s1 s2"
        and cover2: "\<forall>g \<in> set rest. \<exists>d \<in> set (children (s2 c)). covered M2 s2 d (root g)"
        by auto
      define B where "B = B1 \<union> B2"
      define M where "M = insert e (M1 \<union> M2)"
      have run: "extend_loop (Suc (max (Suc n1) n2)) s c L index (length pre) = Some s2"
        using i m call run2 by (rule extend_loop_step_merge)
      have g: "grows s s2" using grows1 grows2 by (rule grows_trans)
      have c1: "B \<subseteq> set (concat (map addresses fs))" "M \<subseteq> set (concat (map addresses fs))"
        unfolding F B_def M_def using B1 B2 M1 M2 by auto
      have c2: "B \<inter> M = {}"
        unfolding B_def M_def using B1 B2 M1 M2 BM1 BM2 disj by blast
      have c3: "closed s2 (A \<union> B)" using closed2 by (simp add: B_def Un_assoc)
      have c4: "\<forall>x. x \<notin> A \<union> B \<longrightarrow> s2 x = s x"
        using frame1 frame2 by (simp add: B_def)
      have s2e: "s2 e = s e" using c4 A(1) B1 B2 disj by (auto simp: B_def)
      have me: "covered M s2 m e"
      proof (rule covered.merged)
        show "label (s2 m) = label (s2 e)" using g mc(2) by (simp add: grows_def)
        show "url (s2 m) = url (s2 e)" using g m(2) by (simp add: grows_def)
        show "e \<in> M" by (simp add: M_def)
        fix x assume "x \<in> set (children (s2 e))"
        with s2e ce obtain t where t: "t \<in> set ts" "x = root t" by auto
        with cover1 obtain d where d: "d \<in> set (children (s1 m))" "covered M1 s1 d x" by blast
        have "\<forall>y \<in> M1. s2 y = s1 y"
          using frame2 M1 BM1 A(2) B2 disj(3) by blast
        with d(2) grows2 have "covered M s2 d x"
          by (rule covered_stable) (simp add: M_def subset_insertI2)
        moreover from d(1) grows2 have "d \<in> set (children (s2 m))" by (auto simp: grows_def)
        ultimately show "\<exists>d' \<in> set (children (s2 m)). covered M s2 d' x" by blast
      qed
      from mc(1) g have "m \<in> set (children (s2 c))" by (auto simp: grows_def)
      with me have c5a: "\<exists>d \<in> set (children (s2 c)). covered M s2 d (root f)"
        by (auto simp: f)
      have c5b: "\<exists>d \<in> set (children (s2 c)). covered M s2 d (root g)" if "g \<in> set rest" for g
      proof -
        from that cover2 obtain d where d: "d \<in> set (children (s2 c))" "covered M2 s2 d (root g)"
          by blast
        from d(2) grows_refl have "covered M s2 d (root g)"
          by (rule covered_stable) (simp_all add: M_def subset_insertI2)
        with d(1) show ?thesis by blast
      qed
      have c5: "\<forall>g \<in> set fs. \<exists>d \<in> set (children (s2 c)). covered M s2 d (root g)"
        using c5a c5b by (auto simp: Cons)
      from run c1 c2 c3 c4 g c5 show ?thesis by blast
    next
      case False
      define s1 where "s1 = append_child s c e"
      define Bf where "Bf = insert e Ft"
      have Bf: "Bf = set (addresses f)" by (simp add: Bf_def f Ft_def)
      have ce_ne: "c \<noteq> e" using less.prems(4) A(1) by blast
      have grows1: "grows s s1" unfolding s1_def by (rule grows_append_child)
      have frame1: "s1 x = s x" if "x \<noteq> c" for x
        using that by (simp add: s1_def append_child_other)
      have "closed s Bf" unfolding Bf using less.prems(1) by (simp add: Cons realises_closed)
      have cl1: "closed s1 (A \<union> Bf)"
        unfolding closed_def
      proof
        fix x assume x: "x \<in> A \<union> Bf"
        show "set (children (s1 x)) \<subseteq> A \<union> Bf"
        proof (cases "x = c")
          case True
          have "set (children (s c)) \<subseteq> A" using less.prems(3,4) by (simp add: closed_def)
          then show ?thesis by (auto simp: True s1_def children_append_child Bf_def)
        next
          case False
          then have "s1 x = s x" by (rule frame1)
          with x less.prems(3) \<open>closed s Bf\<close> show ?thesis by (auto simp: closed_def)
        qed
      qed
      have "\<exists>n s' B M. extend_loop n s1 c L (index(label (s e) \<mapsto> e)) (Suc (length pre)) = Some s' \<and>
           B \<subseteq> Fr \<and> M \<subseteq> Fr \<and> B \<inter> M = {} \<and> closed s' ((A \<union> Bf) \<union> B) \<and>
           (\<forall>x. x \<notin> (A \<union> Bf) \<union> B \<longrightarrow> s' x = s1 x) \<and> grows s1 s' \<and>
           (\<forall>f \<in> set rest. \<exists>d \<in> set (children (s' c)). covered M s' d (root f))"
      proof (rule rest_step)
        show "closed s1 (A \<union> Bf)" by fact
        show "A \<subseteq> A \<union> Bf" by simp
        show "(A \<union> Bf) \<inter> Fr = {}" using A(3) disj by (auto simp: Bf_def)
        show "\<forall>x. x \<notin> A \<union> Bf \<longrightarrow> s1 x = s x" using less.prems(4) by (auto intro: frame1)
        show "\<forall>l. L = ChildrenOf l \<longrightarrow> l \<notin> A \<union> Bf" using owner by (auto simp: Bf_def)
        show "\<forall>lbl a. (index(label (s e) \<mapsto> e)) lbl = Some a \<longrightarrow>
                a \<in> set (children (s1 c)) \<and> label (s1 a) = lbl"
        proof (intro allI impI)
          fix lbl a assume a: "(index(label (s e) \<mapsto> e)) lbl = Some a"
          show "a \<in> set (children (s1 c)) \<and> label (s1 a) = lbl"
          proof (cases "lbl = label (s e)")
            case True
            with a have "a = e" by simp
            with True grows1 show ?thesis
              by (simp add: s1_def children_append_child grows_def)
          next
            case False
            with a have "index lbl = Some a" by simp
            with less.prems(8) have "a \<in> set (children (s c))" "label (s a) = lbl" by blast+
            with grows1 show ?thesis by (auto simp: grows_def)
          qed
        qed
      qed
      then obtain n2 s2 B2 M2 where
        run2: "extend_loop n2 (append_child s c e) c L (index(label (s e) \<mapsto> e)) (Suc (length pre)) = Some s2"
        and B2: "B2 \<subseteq> Fr" and M2: "M2 \<subseteq> Fr" and BM2: "B2 \<inter> M2 = {}"
        and closed2: "closed s2 ((A \<union> Bf) \<union> B2)"
        and frame2: "\<forall>x. x \<notin> (A \<union> Bf) \<union> B2 \<longrightarrow> s2 x = s1 x"
        and grows2: "grows s1 s2"
        and cover2: "\<forall>g \<in> set rest. \<exists>d \<in> set (children (s2 c)). covered M2 s2 d (root g)"
        unfolding s1_def by auto
      define B where "B = Bf \<union> B2"
      have run: "extend_loop (Suc n2) s c L index (length pre) = Some s2"
        using i False run2 by (rule extend_loop_step_append)
      have g: "grows s s2" using grows1 grows2 by (rule grows_trans)
      have c1: "B \<subseteq> set (concat (map addresses fs))" "M2 \<subseteq> set (concat (map addresses fs))"
        unfolding F B_def Bf_def using B2 M2 by auto
      have c2: "B \<inter> M2 = {}"
        unfolding B_def Bf_def using B2 M2 BM2 disj by blast
      have c3: "closed s2 (A \<union> B)" using closed2 by (simp add: B_def Un_assoc)
      have c4: "\<forall>x. x \<notin> A \<union> B \<longrightarrow> s2 x = s x"
      proof (intro allI impI)
        fix x assume x: "x \<notin> A \<union> B"
        with less.prems(4) have "x \<noteq> c" by blast
        then have "s1 x = s x" by (rule frame1)
        moreover from x frame2 have "s2 x = s1 x" by (simp add: B_def)
        ultimately show "s2 x = s x" by simp
      qed
      have "e \<in> set (children (s1 c))" by (simp add: s1_def children_append_child)
      with grows2 have "e \<in> set (children (s2 c))" by (auto simp: grows_def)
      then have c5a: "\<exists>d \<in> set (children (s2 c)). covered M2 s2 d (root f)"
        by (auto simp: f intro: covered.same)
      have c5: "\<forall>g \<in> set fs. \<exists>d \<in> set (children (s2 c)). covered M2 s2 d (root g)"
        using c5a cover2 by (auto simp: Cons)
      from run c1 c2 c3 c4 g c5 show ?thesis by blast
    qed
  qed
qed

text \<open>The call itself: it builds the dictionary and runs the loop from position 0.\<close>

lemma extend_returns_covering:
  assumes "\<forall>f \<in> set fs. realises s f"
    and "distinct (concat (map addresses fs))"
    and "closed s A" and "self \<in> A"
    and "A \<inter> set (concat (map addresses fs)) = {}"
  shows "\<exists>n s1 M. extend n s self (Given (map root fs)) = Some s1 \<and>
           (\<forall>f \<in> set fs. \<exists>d \<in> set (children (s1 self)). covered M s1 d (root f))"
proof -
  have "\<exists>n s' B M. extend_loop n s self (Given (map root fs)) (child_index s self) (length ([] :: nat list)) = Some s' \<and>
           B \<subseteq> set (concat (map addresses fs)) \<and> M \<subseteq> set (concat (map addresses fs)) \<and>
           B \<inter> M = {} \<and> closed s' (A \<union> B) \<and> (\<forall>x. x \<notin> A \<union> B \<longrightarrow> s' x = s x) \<and> grows s s' \<and>
           (\<forall>f \<in> set fs. \<exists>d \<in> set (children (s' self)). covered M s' d (root f))"
  proof (rule extend_loop_covers)
    show "entries_of s (Given (map root fs)) = [] @ map root fs" by simp
    show "\<forall>l. Given (map root fs) = ChildrenOf l \<longrightarrow>
            l \<notin> A \<and> l \<notin> set (concat (map addresses fs))"
      by simp
    show "\<forall>lbl a. child_index s self lbl = Some a \<longrightarrow>
            a \<in> set (children (s self)) \<and> label (s a) = lbl"
      using child_index_sound by blast
  qed (fact assms)+
  then obtain n s1 M where
    "extend_loop n s self (Given (map root fs)) (child_index s self) 0 = Some s1"
    "\<forall>f \<in> set fs. \<exists>d \<in> set (children (s1 self)). covered M s1 d (root f)"
    by auto
  then have "extend (Suc n) s self (Given (map root fs)) = Some s1 \<and>
           (\<forall>f \<in> set fs. \<exists>d \<in> set (children (s1 self)). covered M s1 d (root f))"
    by simp
  then show ?thesis by blast
qed

text \<open>The examples: unfolding for a bound written as a numeral, and the runs.\<close>

lemma extend_numeral:
  "extend (numeral k) s self sitemap_entries =
     extend_loop (pred_numeral k) s self sitemap_entries (child_index s self) 0"
  by (simp add: numeral_eq_Suc)

lemma extend_loop_numeral:
  "extend_loop (numeral k) s self sitemap_entries index i =
     (if i < length (entries_of s sitemap_entries) then
        (let e = entries_of s sitemap_entries ! i;
             lbl = label (s e)
         in case index lbl of
              Some match \<Rightarrow>
                if url (s match) = url (s e) then
                  (case extend (pred_numeral k) s match (ChildrenOf e) of
                     None \<Rightarrow> None
                   | Some s' \<Rightarrow> extend_loop (pred_numeral k) s' self sitemap_entries index (i + 1))
                else extend_loop (pred_numeral k) (append_child s self e) self sitemap_entries
                       (index(lbl \<mapsto> e)) (i + 1)
            | None \<Rightarrow>
                extend_loop (pred_numeral k) (append_child s self e) self sitemap_entries
                  (index(lbl \<mapsto> e)) (i + 1))
      else Some s)"
  unfolding numeral_eq_Suc by (rule extend_loop.simps)

lemma distinct_tree_leaf: "children (s c) = [] \<Longrightarrow> distinct_tree s c"
  by (rule distinct_tree.intros) simp_all

lemma example_sitemap_run:
  "extend 6 example_sitemap 0 (Given (map root example_forest)) = Some example_sitemap_extended"
  by (simp add: Let_def extend_numeral extend_loop_numeral example_sitemap_def example_forest_def
      example_sitemap_extended_def empty_store_def child_index_def append_child_def)

lemma example_sitemap_extended_distinct: "distinct_tree example_sitemap_extended 0"
proof -
  have ch: "children (example_sitemap_extended 0) = [2, 3, 12]"
    "children (example_sitemap_extended 2) = []"
    "children (example_sitemap_extended 3) = [4, 11]"
    "children (example_sitemap_extended 4) = []"
    "children (example_sitemap_extended 11) = []"
    "children (example_sitemap_extended 12) = []"
    by (simp_all add: example_sitemap_extended_def example_sitemap_def)
  have lb: "label (example_sitemap_extended 2) = ''Home''"
    "label (example_sitemap_extended 3) = ''Wiki''"
    "label (example_sitemap_extended 4) = ''Pages''"
    "label (example_sitemap_extended 11) = ''Edit''"
    "label (example_sitemap_extended 12) = ''Tickets''"
    by (simp_all add: example_sitemap_extended_def example_sitemap_def)
  have leaf: "distinct_tree example_sitemap_extended 2" "distinct_tree example_sitemap_extended 4"
    "distinct_tree example_sitemap_extended 11" "distinct_tree example_sitemap_extended 12"
    by (rule distinct_tree_leaf, simp add: ch)+
  have wiki: "distinct_tree example_sitemap_extended 3"
    by (rule distinct_tree.intros) (auto simp: ch lb leaf)
  show ?thesis
    by (rule distinct_tree.intros) (auto simp: ch lb leaf wiki)
qed

text \<open>
  C10: for every entry whose tree of children has pairwise distinct labels at each level,
  a second call of \<^verbatim>\<open>extend\<close> with the same list of entries leaves the tree of children
  unchanged. The docstring of \<^verbatim>\<open>extend\<close> promises as much for each entry: one that does not
  yet exist in the children is added, and one that does is not added again, its children
  are merged into those of the existing one. The code does otherwise. The dictionary
  \<^verbatim>\<open>child_index\<close> is keyed by the label alone, and of two children with the same label it
  holds the later one, while an incoming entry counts as existing only when the child
  found under its label also has its url.

  The entry at 0 of \<open>example_duplicates\<close> has no children, and the incoming entries at 1
  and 2 have the same label and different urls. The first call appends both, which gives
  \<open>example_duplicates_extended\<close>. In the second call both already exist in the children,
  but the dictionary holds the entry at 2 under their label: the entry at 1 does not match
  it by url and is appended again, and replaces it in the dictionary; then the entry at 2
  does not match the entry at 1 and is appended again. The children, 1 and 2 after the
  first call, are 1, 2, 1 and 2 after the second.
\<close>

theorem extend_appends_existing_entries:
  "children (example_duplicates 0) = [] \<and>
   extend 4 example_duplicates 0 (Given [1, 2]) = Some example_duplicates_extended \<and>
   children (example_duplicates_extended 0) = [1, 2] \<and>
   map_option (\<lambda>s. children (s 0)) (extend 4 example_duplicates_extended 0 (Given [1, 2]))
     = Some [1, 2, 1, 2]"
  by (simp add: Let_def extend_numeral extend_loop_numeral example_duplicates_def
      example_duplicates_extended_def empty_store_def child_index_def append_child_def)

text \<open>
  Apart from this, \<^verbatim>\<open>extend\<close> appends the incoming entries themselves, not copies, so a
  second call can change the tree when an incoming entry is also an entry of the
  receiver's tree, even with pairwise distinct labels throughout. In \<open>example_shared\<close> the
  labels are pairwise distinct at each level below the entry at 0, before and after the
  first call with the entries at 5 and 6; the first call merges the entry at 7 into the
  entry at 5, which is a child of 4 and the first incoming entry, and gives it the child 8.
  The second call then finds a child of the first incoming entry and appends it to the
  entry at 3.
\<close>

lemma extend_shared_entry_changes:
  "distinct_tree example_shared 0 \<and>
   (\<exists>s1 s2. extend 10 example_shared 0 (Given [5, 6]) = Some s1 \<and> distinct_tree s1 0 \<and>
      children (s1 3) = [] \<and>
      extend 10 s1 0 (Given [5, 6]) = Some s2 \<and> children (s2 3) = [8])"
proof -
  define s1 where "s1 = example_shared(5 := \<lparr>label = ''A'', url = Some ''u'', children = [8]\<rparr>)"
  have run1: "extend 10 example_shared 0 (Given [5, 6]) = Some s1"
    by (simp add: s1_def Let_def extend_numeral extend_loop_numeral example_shared_def empty_store_def
        child_index_def append_child_def)
  have run2: "\<exists>s2. extend 10 s1 0 (Given [5, 6]) = Some s2 \<and> children (s2 3) = [8]"
    by (simp add: s1_def Let_def extend_numeral extend_loop_numeral example_shared_def empty_store_def
        child_index_def append_child_def)
  have ch: "children (example_shared 0) = [3, 4]" "children (example_shared 3) = []"
    "children (example_shared 4) = [5]" "children (example_shared 5) = []"
    "children (s1 0) = [3, 4]" "children (s1 3) = []" "children (s1 4) = [5]"
    "children (s1 5) = [8]" "children (s1 8) = []"
    by (simp_all add: s1_def example_shared_def empty_store_def)
  have lb: "label (example_shared 3) = ''A''" "label (example_shared 4) = ''B''"
    "label (s1 3) = ''A''" "label (s1 4) = ''B''"
    by (simp_all add: s1_def example_shared_def)
  have leaf: "distinct_tree example_shared 3" "distinct_tree example_shared 5"
    "distinct_tree s1 3" "distinct_tree s1 8"
    by (rule distinct_tree_leaf, simp add: ch)+
  have a4: "distinct_tree example_shared 4"
    by (rule distinct_tree.intros) (auto simp: ch leaf)
  have a: "distinct_tree example_shared 0"
    by (rule distinct_tree.intros) (auto simp: ch lb leaf a4)
  have b5: "distinct_tree s1 5"
    by (rule distinct_tree.intros) (auto simp: ch leaf)
  have b4: "distinct_tree s1 4"
    by (rule distinct_tree.intros) (auto simp: ch b5)
  have b: "distinct_tree s1 0"
    by (rule distinct_tree.intros) (auto simp: ch lb leaf b4)
  from a b ch(6) run1 run2 show ?thesis by blast
qed

text \<open>
  Where the second call does change nothing: let the incoming entries be the roots of a
  forest of entries in which no entry occurs twice, and let no entry of the forest be an
  entry of the receiver's tree (the receiver lies in a set of entries that is closed under
  children and holds no entry of the forest). Then \<^verbatim>\<open>extend\<close> returns, and whenever the
  first call has left no two children of one entry with the same label below the
  receiver, so that the dictionary finds every child under its label, a second call of
  \<^verbatim>\<open>extend\<close> with the same list of entries returns and leaves every entry unchanged.
\<close>

lemma extend_unchanged_by_second_call:
  assumes "\<forall>f \<in> set fs. realises s f"
    and "distinct (concat (map addresses fs))"
    and "closed s A" and "self \<in> A"
    and "A \<inter> set (concat (map addresses fs)) = {}"
  shows "(\<exists>n s1. extend n s self (Given (map root fs)) = Some s1) \<and>
         (\<forall>n s1. extend n s self (Given (map root fs)) = Some s1 \<and> distinct_tree s1 self \<longrightarrow>
            (\<exists>m. \<forall>k \<ge> m. extend k s1 self (Given (map root fs)) = Some s1))"
proof -
  from extend_returns_covering [OF assms] obtain n0 s0 M where
    run: "extend n0 s self (Given (map root fs)) = Some s0"
    and cover: "\<forall>f \<in> set fs. \<exists>d \<in> set (children (s0 self)). covered M s0 d (root f)"
    by (elim exE conjE)
  have "\<exists>m. \<forall>k \<ge> m. extend k s1 self (Given (map root fs)) = Some s1"
    if r: "extend n s self (Given (map root fs)) = Some s1" and d: "distinct_tree s1 self" for n s1
  proof -
    from r have "extend (max n n0) s self (Given (map root fs)) = Some s1"
      by (rule extend_fuel_le) simp
    moreover from run have "extend (max n n0) s self (Given (map root fs)) = Some s0"
      by (rule extend_fuel_le) simp
    ultimately have "s1 = s0" by simp
    with cover have "\<forall>e \<in> set (entries_of s1 (Given (map root fs))).
                       \<exists>d \<in> set (children (s1 self)). covered M s1 d e"
      by simp
    with d have "\<exists>m. extend m s1 self (Given (map root fs)) = Some s1"
      by (rule extend_covered_unchanged)
    then obtain m where "extend m s1 self (Given (map root fs)) = Some s1" ..
    then have "\<forall>k \<ge> m. extend k s1 self (Given (map root fs)) = Some s1"
      by (intro allI impI) (rule extend_fuel_le)
    then show ?thesis ..
  qed
  then have "\<forall>n s1. extend n s self (Given (map root fs)) = Some s1 \<and> distinct_tree s1 self \<longrightarrow>
            (\<exists>m. \<forall>k \<ge> m. extend k s1 self (Given (map root fs)) = Some s1)"
    by (intro allI impI) (elim conjE)
  moreover from run have "\<exists>n s1. extend n s self (Given (map root fs)) = Some s1" by (intro exI)
  ultimately show ?thesis by (rule conjI [rotated])
qed

text \<open>
  At \<open>example_sitemap\<close>: the incoming entry at 10 is merged into the child at 3, which
  receives the child 11, and the incoming entry at 12 is appended.
\<close>

lemma extend_unchanged_by_second_call_example:
  "extend 6 example_sitemap 0 (Given [10, 12]) = Some example_sitemap_extended \<and>
   distinct_tree example_sitemap_extended 0 \<and>
   (\<exists>m. \<forall>k \<ge> m. extend k example_sitemap_extended 0 (Given [10, 12]) = Some example_sitemap_extended)"
proof -
  have 1: "\<forall>f \<in> set example_forest. realises example_sitemap f"
    by (simp add: example_forest_def example_sitemap_def)
  have 2: "distinct (concat (map addresses example_forest))"
    by (simp add: example_forest_def)
  have 3: "closed example_sitemap {0, 2, 3, 4}"
    by (simp add: closed_def example_sitemap_def empty_store_def)
  have 4: "{0, 2, 3, 4} \<inter> set (concat (map addresses example_forest)) = {}"
    by (simp add: example_forest_def)
  have 5: "map root example_forest = [10, 12]" by (simp add: example_forest_def)
  from extend_unchanged_by_second_call [OF 1 2 3 _ 4] example_sitemap_run
    example_sitemap_extended_distinct
  show ?thesis unfolding 5 by blast
qed

end
